theory Spec2Isabelle
  imports Complex_Main
begin

section \<open>Conventions of the embedding\<close>

text \<open>
  The repository holds two variants of a deep Q-learning agent: the DQN variant
  (\<^verbatim>\<open>RL/DeepQLearning/model_dqn.py\<close>, \<^verbatim>\<open>RL/DeepQLearning/train.py\<close>) and the dueling
  variant (\<^verbatim>\<open>RL/DuelingDoubleDQN/model_dd_dqn.py\<close>, \<^verbatim>\<open>RL/DuelingDoubleDQN/main.py\<close>).

  Python floats and the entries of float tensors are modelled as \<^typ>\<open>real\<close>: every
  equation below is an equation of exact arithmetic, and rounding, infinities and NaN are
  outside the model. Python integers are \<^typ>\<open>int\<close>; sizes that the source only ever
  uses as a count (\<^verbatim>\<open>action_space\<close>, \<^verbatim>\<open>batch_size\<close>) are \<^typ>\<open>nat\<close>.
  A one-dimensional tensor is a list, a two-dimensional tensor a list of rows.
  Every exception the modelled code can raise is a value of \<open>error\<close>, and a function that
  can raise returns \<open>error + 'a\<close>.
\<close>

datatype error =
    ShapeError              \<comment> \<open>torch RuntimeError: sizes do not match, or a reduction over nothing\<close>
  | IndexError
  | ValueError
  | ZeroDivisionError
  | NameError               \<comment> \<open>a name that is bound neither in the function nor in its module\<close>
  | InsufficientDataError

section \<open>The torch operations the source uses\<close>

text \<open>\<^verbatim>\<open>sequence\<close> runs a list of computations in order and stops at the first error.\<close>

fun sequence :: "(error + 'a) list \<Rightarrow> error + 'a list" where
  "sequence [] = Inr []"
| "sequence (x # xs) =
     (case x of
        Inl e \<Rightarrow> Inl e
      | Inr v \<Rightarrow> (case sequence xs of Inl e \<Rightarrow> Inl e | Inr vs \<Rightarrow> Inr (v # vs)))"

text \<open>
  An elementwise binary operation on two tensors broadcasts along a dimension: equal
  sizes are combined position by position, a size-1 operand is repeated, anything else
  raises.
\<close>

definition broadcast :: "('a \<Rightarrow> 'b \<Rightarrow> 'c) \<Rightarrow> 'a list \<Rightarrow> 'b list \<Rightarrow> error + 'c list" where
  "broadcast f xs ys =
     (if length xs = length ys then Inr (map2 f xs ys)
      else if length xs = 1 then Inr (map (f (hd xs)) ys)
      else if length ys = 1 then Inr (map (\<lambda>x. f x (hd ys)) xs)
      else Inl ShapeError)"

text \<open>Two-dimensional operands broadcast along dimension 0 and, row by row, along dimension 1.\<close>

definition broadcast2 ::
  "('a \<Rightarrow> 'b \<Rightarrow> 'c) \<Rightarrow> 'a list list \<Rightarrow> 'b list list \<Rightarrow> error + 'c list list" where
  "broadcast2 f xs ys =
     (case broadcast (broadcast f) xs ys of
        Inl e \<Rightarrow> Inl e
      | Inr rows \<Rightarrow> sequence rows)"

text \<open>
  \<^verbatim>\<open>torch.max(v, dim=0)\<close> on a one-dimensional tensor returns the pair (maximum, index of
  a maximal entry) and raises on an empty tensor. Which index is returned among equal
  maxima is not fixed by torch; the model returns the first, and no theorem below depends
  on that choice beyond the entry at the returned index being maximal.
\<close>

fun torch_max :: "real list \<Rightarrow> error + (real \<times> nat)" where
  "torch_max [] = Inl ShapeError"
| "torch_max [x] = Inr (x, 0)"
| "torch_max (x # y # ys) =
     (case torch_max (y # ys) of
        Inl e \<Rightarrow> Inl e
      | Inr (m, i) \<Rightarrow> if x < m then Inr (m, Suc i) else Inr (x, 0))"

text \<open>\<^verbatim>\<open>t.max(dim=1)[0]\<close>: the row maxima of a two-dimensional tensor.\<close>

definition max_dim1 :: "real list list \<Rightarrow> error + real list" where
  "max_dim1 rows =
     (case sequence (map torch_max rows) of
        Inl e \<Rightarrow> Inl e
      | Inr ms \<Rightarrow> Inr (map fst ms))"

section \<open>The TD target (\<^verbatim>\<open>train.py\<close>, \<^verbatim>\<open>work\<close>, lines 167-168)\<close>

text \<open>
  \<^verbatim>\<open>q_value_next_max = t_network.forward(Variable(next_state_batch)).detach().max(dim=1)[0]\<close>
  \<^verbatim>\<open>t_values = Variable(reward_batch) + args.discount_factor * (Variable(1 - done_batch) * q_value_next_max)\<close>

  \<open>q_next\<close> is the output of the target network on \<^verbatim>\<open>next_state_batch\<close>, one row of
  action values per sample; \<open>reward_batch\<close> and \<open>done_batch\<close> are one-dimensional, and
  \<open>done_batch\<close> holds \<^verbatim>\<open>float(done)\<close>, that is 1 for a terminal transition and 0 otherwise.
\<close>

definition t_values :: "real \<Rightarrow> real list \<Rightarrow> real list \<Rightarrow> real list list \<Rightarrow> error + real list" where
  "t_values discount_factor reward_batch done_batch q_next =
     (case max_dim1 q_next of
        Inl e \<Rightarrow> Inl e
      | Inr q_value_next_max \<Rightarrow>
          (case broadcast (*) (map (\<lambda>d. 1 - d) done_batch) q_value_next_max of
             Inl e \<Rightarrow> Inl e
           | Inr bootstrap \<Rightarrow>
               broadcast (+) reward_batch (map (\<lambda>b. discount_factor * b) bootstrap)))"

section \<open>The dueling network (\<^verbatim>\<open>model_dd_dqn.py\<close>, \<^verbatim>\<open>DDDQN_Network\<close>)\<close>

text \<open>
  The layers are torch modules (\<^verbatim>\<open>nn.Conv2d\<close>, \<^verbatim>\<open>nn.Linear\<close>, \<^verbatim>\<open>nn.ELU\<close>); each acts
  on the samples of a batch independently, so a layer is a function on one sample, with
  its weights inside. \<open>'x\<close> is the type of one input sample. The layer \<^verbatim>\<open>self.value\<close> is
  \<^verbatim>\<open>nn.Linear(out_features=1)\<close>: its output row has one entry, and the field \<open>value_l\<close>
  returns that entry.
\<close>

record 'x DDDQN_Network =
  batch_size :: nat
  action_space :: nat
  conv1 :: "'x \<Rightarrow> real list list list"
  conv2 :: "real list list list \<Rightarrow> real list list list"
  conv3 :: "real list list list \<Rightarrow> real list list list"
  value_fc :: "real list \<Rightarrow> real list"
  value_l :: "real list \<Rightarrow> real"
  advantage_fc :: "real list \<Rightarrow> real list"
  advantage :: "real list \<Rightarrow> real list"

text \<open>\<^verbatim>\<open>X_conv3.view(X_conv3.size(0), -1)\<close> for one sample: the entries in row-major order.\<close>

definition X_flatten :: "'x DDDQN_Network \<Rightarrow> 'x \<Rightarrow> real list" where
  "X_flatten net x = concat (concat (conv3 net (conv2 net (conv1 net x))))"

text \<open>The local variables \<^verbatim>\<open>value\<close> and \<^verbatim>\<open>advantage\<close> of \<^verbatim>\<open>forward\<close>, for one sample.\<close>

definition value_of :: "'x DDDQN_Network \<Rightarrow> 'x \<Rightarrow> real" where
  "value_of net x = value_l net (value_fc net (X_flatten net x))"

definition advantage_of :: "'x DDDQN_Network \<Rightarrow> 'x \<Rightarrow> real list" where
  "advantage_of net x = advantage net (advantage_fc net (X_flatten net x))"

text \<open>
  \<^verbatim>\<open>torch.mean(advantage, dim=1, keepdim=True)\<close> for one row. On an empty row torch gives
  NaN and HOL gives 0; an empty row has no entry that the mean could reach.
\<close>

definition mean_dim1 :: "real list \<Rightarrow> real" where
  "mean_dim1 row = sum_list row / real (length row)"

text \<open>
  \<^verbatim>\<open>forward\<close>. On an empty batch \<^verbatim>\<open>X_conv3.view(X_conv3.size(0), -1)\<close> raises: with no
  entries and a first size of 0 the size \<^verbatim>\<open>-1\<close> cannot be inferred. Otherwise
  \<^verbatim>\<open>q_values = value + (advantage - torch.mean(advantage, dim=1, keepdim=True))\<close>:
  the mean (one column) is subtracted from every entry of its row, and the value (one
  column) is added to every entry of its row.
\<close>

definition DDDQN_forward :: "'x DDDQN_Network \<Rightarrow> 'x list \<Rightarrow> error + real list list" where
  "DDDQN_forward net X =
     (if X = [] then Inl ShapeError
      else Inr (map (\<lambda>x. let value = value_of net x;
                             advantage = advantage_of net x;
                             mean = mean_dim1 advantage
                         in map (\<lambda>a. value + (a - mean)) advantage) X))"

text \<open>
  \<^verbatim>\<open>compute_q_value\<close>: \<^verbatim>\<open>torch.sum(torch.mul(q_values, actions), dim=1)\<close>, with the actions
  given as rows of a float tensor.
\<close>

definition compute_q_value ::
  "'x DDDQN_Network \<Rightarrow> 'x list \<Rightarrow> real list list \<Rightarrow> error + real list" where
  "compute_q_value net state actions =
     (case DDDQN_forward net state of
        Inl e \<Rightarrow> Inl e
      | Inr q_values \<Rightarrow>
          (case broadcast2 (*) q_values actions of
             Inl e \<Rightarrow> Inl e
           | Inr products \<Rightarrow> Inr (map sum_list products)))"

text \<open>The one-hot row of action \<open>a\<close> among \<open>n\<close> actions.\<close>

definition one_hot :: "nat \<Rightarrow> nat \<Rightarrow> real list" where
  "one_hot n a = map (\<lambda>j. if j = a then 1 else 0) [0..<n]"

section \<open>The epsilon-greedy policy of the dueling variant (\<^verbatim>\<open>model_dd_dqn.py\<close>, lines 10-27)\<close>

text \<open>
  \<^verbatim>\<open>eps_threshold = eps_end + (eps_start - eps_end) * math.exp(-1. * steps_done * eps_decay)\<close>
\<close>

definition eps_threshold :: "real \<Rightarrow> real \<Rightarrow> real \<Rightarrow> int \<Rightarrow> real" where
  "eps_threshold eps_end eps_start eps_decay steps_done =
     eps_end + (eps_start - eps_end) * exp (-1 * real_of_int steps_done * eps_decay)"

text \<open>
  The two random draws of one decision are inputs of the model: \<open>sample\<close> is the value of
  \<^verbatim>\<open>np.random.random()\<close>, and \<open>rnd\<close> is the entropy \<^verbatim>\<open>np.random.randint\<close> consumes.
  \<^verbatim>\<open>np.random.randint(low, high)\<close> returns an integer of the half-open range from \<open>low\<close> to
  \<open>high\<close> and raises ValueError when the range is empty.
\<close>

definition randint :: "nat \<Rightarrow> nat \<Rightarrow> nat \<Rightarrow> error + nat" where
  "randint low high rnd =
     (if high \<le> low then Inl ValueError else Inr (low + rnd mod (high - low)))"

definition DDDQN_policy_fn ::
  "'x DDDQN_Network \<Rightarrow> real \<Rightarrow> real \<Rightarrow> real \<Rightarrow> 'a list \<Rightarrow> real \<times> nat \<Rightarrow> 'x \<Rightarrow> int
     \<Rightarrow> error + (nat \<times> real)" where
  "DDDQN_policy_fn network eps_end eps_start eps_decay actions draws observation steps_done =
     (let sample = fst draws;
          eps = eps_threshold eps_end eps_start eps_decay steps_done
      in if sample > eps then
           (case DDDQN_forward network [observation] of
              Inl e \<Rightarrow> Inl e
            | Inr out \<Rightarrow>
                (case out of
                   [] \<Rightarrow> Inl IndexError
                 | q_values # _ \<Rightarrow>
                     (case torch_max q_values of
                        Inl e \<Rightarrow> Inl e
                      | Inr (m, best_action) \<Rightarrow> Inr (best_action, eps))))
         else
           (case randint 0 (length actions) (snd draws) of
              Inl e \<Rightarrow> Inl e
            | Inr a \<Rightarrow> Inr (a, eps)))"

section \<open>The DQN network and its policy function (\<^verbatim>\<open>model_dqn.py\<close>)\<close>

text \<open>
  \<^verbatim>\<open>DQN_Network.forward\<close> stores its output in \<^verbatim>\<open>self.prediction\<close>, which
  \<^verbatim>\<open>compute_action_pred\<close> reads later: the network is a record with that field, and
  \<open>DQN_forward\<close> returns the output together with the updated network. The fields
  \<^verbatim>\<open>X_pl\<close>, \<^verbatim>\<open>actions_pl\<close> and \<^verbatim>\<open>action_predictions\<close>, which only \<^verbatim>\<open>compute_loss\<close> reads, are
  left out. On an empty batch \<^verbatim>\<open>X_conv3.view(self.X_pl.size(0), -1)\<close> raises, as in the
  dueling network, before \<^verbatim>\<open>self.prediction\<close> is assigned.
\<close>

record 'x DQN_Network =
  batch_size :: nat
  action_space :: nat
  conv1 :: "'x \<Rightarrow> real list list list"
  conv2 :: "real list list list \<Rightarrow> real list list list"
  conv3 :: "real list list list \<Rightarrow> real list list list"
  fc1 :: "real list \<Rightarrow> real list"
  fc2 :: "real list \<Rightarrow> real list"
  prediction :: "real list list"

definition DQN_forward ::
  "'x DQN_Network \<Rightarrow> 'x list \<Rightarrow> error + (real list list \<times> 'x DQN_Network)" where
  "DQN_forward net X =
     (let X_conv1 = map (DQN_Network.conv1 net) X;
          X_conv2 = map (DQN_Network.conv2 net) X_conv1;
          X_conv3 = map (DQN_Network.conv3 net) X_conv2
      in if X_conv3 = [] then Inl ShapeError
         else (let X_flat = map (\<lambda>t. concat (concat t)) X_conv3;
                   X_fc1 = map (fc1 net) X_flat;
                   out = map (fc2 net) X_fc1
               in Inr (out, net\<lparr>prediction := out\<rparr>)))"

text \<open>
  \<^verbatim>\<open>policy_fn(observation, epsilon)\<close> of the DQN variant:
  \<^verbatim>\<open>A = ones(action_space) * epsilon / action_space\<close>, then
  \<^verbatim>\<open>A[best_action] += (1.0 - epsilon)\<close>.
\<close>

definition DQN_policy_fn ::
  "'x DQN_Network \<Rightarrow> 'x \<Rightarrow> real \<Rightarrow> error + (real list \<times> 'x DQN_Network)" where
  "DQN_policy_fn network observation epsilon =
     (let n = DQN_Network.action_space network;
          A = map (\<lambda>one. one * epsilon / real n) (replicate n 1)
      in case DQN_forward network [observation] of
           Inl e \<Rightarrow> Inl e
         | Inr (out, network') \<Rightarrow>
             (case out of
                [] \<Rightarrow> Inl IndexError
              | q_values # _ \<Rightarrow>
                  (case torch_max q_values of
                     Inl e \<Rightarrow> Inl e
                   | Inr (m, best_action) \<Rightarrow>
                       if best_action < length A
                       then Inr (A[best_action := A ! best_action + (1 - epsilon)], network')
                       else Inl IndexError)))"

text \<open>
  Indexing a one-dimensional tensor with an integer: a negative index counts from the
  end, an index outside the tensor raises.
\<close>

definition tensor_get :: "'a list \<Rightarrow> int \<Rightarrow> error + 'a" where
  "tensor_get xs j =
     (let n = int (length xs); k = (if j < 0 then n + j else j)
      in if 0 \<le> k \<and> k < n then Inr (xs ! nat k) else Inl IndexError)"

text \<open>
  The names bound in the module \<^verbatim>\<open>model_dqn.py\<close>: its imports (\<^verbatim>\<open>np\<close>, \<^verbatim>\<open>torch\<close>, \<^verbatim>\<open>nn\<close>,
  \<^verbatim>\<open>Variable\<close>, \<^verbatim>\<open>NetworkType\<close>, \<^verbatim>\<open>TENSOR_TYPE\<close>) and its two definitions. A function of the
  module that uses another name, not a Python builtin, raises NameError when it reaches it.
\<close>

definition model_dqn_globals :: "string list" where
  "model_dqn_globals =
     [''np'', ''torch'', ''nn'', ''Variable'', ''NetworkType'', ''TENSOR_TYPE'',
      ''epsilon_greedy_policy'', ''DQN_Network'']"

text \<open>
  \<^verbatim>\<open>compute_action_pred\<close>:
  \<^verbatim>\<open>self.actions_pl = i_type(actions.tolist())\<close>,
  \<^verbatim>\<open>mask_index = i_type(range(self.batch_size)) * self.action_space + self.actions_pl\<close>,
  \<^verbatim>\<open>self.prediction.view(-1)[mask_index]\<close>. The first statement looks the name \<^verbatim>\<open>i_type\<close> up
  in the module, where it is not bound, so the call raises before anything is computed.
  The remaining statements are written out as they would run with \<^verbatim>\<open>i_type\<close> bound to the
  constructor of an integer tensor; in the module as it is they are never reached.
\<close>

definition compute_action_pred :: "'x DQN_Network \<Rightarrow> int list \<Rightarrow> error + real list" where
  "compute_action_pred net actions =
     (if ''i_type'' \<notin> set model_dqn_globals then Inl NameError
      else (let actions_pl = actions;
                rows = map (\<lambda>i. int i * int (DQN_Network.action_space net))
                         [0..<DQN_Network.batch_size net]
            in case broadcast (+) rows actions_pl of
                 Inl e \<Rightarrow> Inl e
               | Inr mask_index \<Rightarrow>
                   sequence (map (tensor_get (concat (prediction net))) mask_index)))"

section \<open>Parameter storage of the two networks\<close>

text \<open>
  The parameters of a network are tensors in memory, and the network object refers to
  them. Memory is a map from addresses to tensors (the entries of a tensor in row-major
  order, its shape abstracted to its number of entries), and a network is the list of
  the addresses of its parameter tensors, in the order of its \<^verbatim>\<open>state_dict\<close>. Two networks
  share storage exactly when they have an address in common.
\<close>

type_synonym memory = "nat \<Rightarrow> real list"

record heap =
  cells :: memory
  lim :: nat    \<comment> \<open>the first address not allocated yet\<close>

text \<open>
  In-place assignment of new values to the tensors at the given addresses, in order.
  This is what \<^verbatim>\<open>optimizer.step()\<close> and \<^verbatim>\<open>reset_parameters\<close> do to the parameters they
  were given.
\<close>

fun write_params :: "nat list \<Rightarrow> real list list \<Rightarrow> memory \<Rightarrow> memory" where
  "write_params (p # ps) (v # vs) m = write_params ps vs (m(p := v))"
| "write_params _ _ m = m"

text \<open>\<^verbatim>\<open>net.state_dict()\<close> returns references to the network's own tensors.\<close>

definition state_dict :: "nat list \<Rightarrow> nat list" where
  "state_dict net = net"

text \<open>
  \<^verbatim>\<open>net.load_state_dict(sd)\<close> copies, entry by entry, the value of each tensor of \<open>sd\<close> into
  the network's own tensor (\<^verbatim>\<open>param.copy_(input_param)\<close>), and raises when the numbers or
  the shapes of the tensors differ.
\<close>

fun copy_params :: "nat list \<Rightarrow> nat list \<Rightarrow> memory \<Rightarrow> memory" where
  "copy_params (d # ds) (s # ss) m = copy_params ds ss (m(d := m s))"
| "copy_params _ _ m = m"

definition load_state_dict :: "memory \<Rightarrow> nat list \<Rightarrow> nat list \<Rightarrow> error + memory" where
  "load_state_dict m net sd =
     (if list_all2 (\<lambda>d s. length (m d) = length (m s)) net sd
      then Inr (copy_params net sd m)
      else Inl ShapeError)"

text \<open>
  Constructing a network (\<^verbatim>\<open>DDDQN_Network(...)\<close>) allocates one fresh tensor per
  parameter, holding its initial value.
\<close>

definition new_network :: "real list list \<Rightarrow> heap \<Rightarrow> nat list \<times> heap" where
  "new_network init h =
     (let addrs = [lim h ..< lim h + length init]
      in (addrs, h\<lparr>cells := write_params addrs init (cells h), lim := lim h + length init\<rparr>))"

text \<open>
  \<^verbatim>\<open>run\<close> in \<^verbatim>\<open>main.py\<close>, lines 152-171: both networks are constructed,
  \<^verbatim>\<open>q_network.reset_parameters()\<close> overwrites the parameters of the online network in place
  (\<open>q_reset\<close> are the values afterwards), and the target network loads the online network's
  \<^verbatim>\<open>state_dict\<close>. \<open>q_init\<close> and \<open>t_init\<close> are the random initial values of the constructors.
\<close>

definition run_init ::
  "real list list \<Rightarrow> real list list \<Rightarrow> real list list \<Rightarrow> heap
     \<Rightarrow> error + (nat list \<times> nat list \<times> heap)" where
  "run_init q_init t_init q_reset h =
     (let (q_network, h1) = new_network q_init h;
          (t_network, h2) = new_network t_init h1;
          h3 = h2\<lparr>cells := write_params q_network q_reset (cells h2)\<rparr>
      in case load_state_dict (cells h3) t_network (state_dict q_network) of
           Inl e \<Rightarrow> Inl e
         | Inr m \<Rightarrow> Inr (q_network, t_network, h3\<lparr>cells := m\<rparr>))"

section \<open>The stacked-frame window (\<^verbatim>\<open>train.py\<close>, lines 64, 69, 111, 122)\<close>

text \<open>
  A preprocessed frame is a tensor of shape \<open>[C, H, W]\<close>, a list of \<open>C\<close> planes; the state
  is a tensor of shape \<open>[C, N, H, W]\<close>, for each channel the list of its \<open>N\<close> frames, oldest
  first. \<open>'pl\<close> is the type of a plane.

  \<^verbatim>\<open>torch.stack([state] * 4, dim=1)\<close>
\<close>

definition stack4 :: "'pl list \<Rightarrow> 'pl list list" where
  "stack4 frame = map (\<lambda>p. replicate 4 p) frame"

text \<open>\<^verbatim>\<open>torch.cat((a, b), dim=1)\<close> needs equal sizes in every other dimension.\<close>

definition cat_dim1 :: "'pl list list \<Rightarrow> 'pl list list \<Rightarrow> error + 'pl list list" where
  "cat_dim1 a b = (if length a = length b then Inr (map2 (@) a b) else Inl ShapeError)"

text \<open>
  \<^verbatim>\<open>torch.cat((state[:, 1:, :, :], next_state.unsqueeze(dim=0)), dim=1)\<close>: the slice drops
  the first frame of every channel, and \<^verbatim>\<open>unsqueeze(dim=0)\<close> turns the new frame
  \<open>[C, H, W]\<close> into \<open>[1, C, H, W]\<close>.
\<close>

definition append_frame :: "'pl list list \<Rightarrow> 'pl list \<Rightarrow> error + 'pl list list" where
  "append_frame state next_frame = cat_dim1 (map (drop 1) state) [next_frame]"

section \<open>The experience buffer\<close>

type_synonym plane = "real list list"
type_synonym raw_frame = "real list list list"
type_synonym frames = "plane list list"

record Transition =
  tr_state :: frames
  tr_action :: "int list"
  tr_reward :: real
  tr_next_state :: frames
  tr_done :: real

text \<open>
  Modelled from the spec: \<^verbatim>\<open>helper.ExperienceBuffer\<close> is not among the sources. Section 4.1
  of the specification: \<^verbatim>\<open>add\<close> appends while the size is below the capacity and otherwise
  overwrites the slot at the write cursor and advances the cursor circularly;
  \<^verbatim>\<open>sample(batch_size)\<close> fails with \<^verbatim>\<open>InsufficientDataError\<close> if the current size is smaller
  than \<^verbatim>\<open>batch_size\<close> and otherwise returns \<^verbatim>\<open>batch_size\<close> transitions drawn with replacement.
  The index drawn for position \<open>k\<close> of the batch is the input \<open>draws k\<close>, reduced to the
  current size.
\<close>

record ExperienceBuffer =
  buffer_size :: nat
  contents :: "Transition list"
  cursor :: nat

definition add :: "ExperienceBuffer \<Rightarrow> Transition \<Rightarrow> ExperienceBuffer" where
  "add buf tr =
     (if length (contents buf) < buffer_size buf
      then buf\<lparr>contents := contents buf @ [tr]\<rparr>
      else buf\<lparr>contents := (contents buf)[cursor buf := tr],
               cursor := (cursor buf + 1) mod buffer_size buf\<rparr>)"

definition sample :: "ExperienceBuffer \<Rightarrow> nat \<Rightarrow> (nat \<Rightarrow> nat) \<Rightarrow> error + Transition list" where
  "sample buf n draws =
     (if length (contents buf) < n then Inl InsufficientDataError
      else Inr (map (\<lambda>k. contents buf ! (draws k mod length (contents buf))) [0..<n]))"

section \<open>The training loop (\<^verbatim>\<open>train.py\<close>, \<^verbatim>\<open>work\<close>)\<close>

text \<open>
  The collaborators of \<^verbatim>\<open>work\<close> are parameters of the model:
  \<^item> the environment, with its state of type \<open>'e\<close>: \<^verbatim>\<open>env.reset()\<close> and \<^verbatim>\<open>env.step(action)\<close>;
  \<^item> \<^verbatim>\<open>helper.state_processor\<close>;
  \<^item> the policy object: \<^verbatim>\<open>work\<close> calls \<^verbatim>\<open>policy(state, GLOBAL_STEP)\<close>, unpacks the result into
    \<^verbatim>\<open>action, epsilon\<close> and passes \<^verbatim>\<open>action[0]\<close> to the environment, so the policy returns an
    indexable action and an epsilon; it reads the current parameters of \<^verbatim>\<open>q_network\<close> and
    the random draws of the decision (of the two policy functions among the sources, the
    one of \<^verbatim>\<open>model_dqn.py\<close> takes an epsilon and returns action probabilities, and the one of
    \<^verbatim>\<open>model_dd_dqn.py\<close> takes the step and returns an integer action and the epsilon);
  \<^item> the architecture shared by the two networks, a function from the parameter values and
    a batch to the output rows (\<^verbatim>\<open>forward\<close>);
  \<^item> the gradient update: \<^verbatim>\<open>compute_q_value\<close>, \<^verbatim>\<open>compute_loss\<close>, \<^verbatim>\<open>loss.backward()\<close>,
    \<^verbatim>\<open>clip_grad_norm\<close> and \<^verbatim>\<open>optimizer.step()\<close> together compute new values for the parameters
    of \<^verbatim>\<open>q_network\<close> from their current values, the batch, the targets and the state \<open>'o\<close>
    of the optimizer.
  Plotting (\<^verbatim>\<open>vis.line\<close>), checkpoint files and the video monitor do not act on the state
  modelled here and are left out.
\<close>

record ('e, 'o) collaborators =
  env_reset :: "'e \<Rightarrow> raw_frame \<times> 'e"
  env_step :: "'e \<Rightarrow> int \<Rightarrow> (raw_frame \<times> real \<times> bool) \<times> 'e"
  state_processor :: "raw_frame \<Rightarrow> plane list"
  policy :: "real list list \<Rightarrow> real \<times> nat \<Rightarrow> frames \<Rightarrow> int \<Rightarrow> error + (int list \<times> real)"
  net_forward :: "real list list \<Rightarrow> frames list \<Rightarrow> real list list"
  gradient_step ::
    "'o \<Rightarrow> real list list \<Rightarrow> frames list \<Rightarrow> int list list \<Rightarrow> real list
       \<Rightarrow> real list list \<times> 'o"

record args =
  replay_memory_size :: nat
  replay_memory_init_size :: nat
  batch_size :: nat
  update_target_estimator_every :: int
  discount_factor :: real

record EpisodeStats =
  episode_lengths :: int
  episode_rewards :: real

text \<open>
  The state of \<^verbatim>\<open>work\<close>: the module variable \<^verbatim>\<open>GLOBAL_STEP\<close>, the local variables, the
  parameter memory, and the list of the pairs the generator has yielded. \<open>episode_t\<close> is the
  loop variable \<^verbatim>\<open>t\<close> of \<^verbatim>\<open>itertools.count()\<close>.
\<close>

record ('e, 'o) train_state =
  GLOBAL_STEP :: int
  env :: 'e
  state :: frames
  replay_memory :: ExperienceBuffer
  stats :: EpisodeStats
  mem :: memory
  optimizer :: 'o
  i_episode :: int
  episode_t :: int
  yielded :: "(int \<times> EpisodeStats) list"

text \<open>The random draws one loop iteration consumes.\<close>

record step_input =
  policy_draws :: "real \<times> nat"
  sample_draws :: "nat \<Rightarrow> nat"

text \<open>
  \<^verbatim>\<open>state = env.reset(); state = helper.state_processor(state);\<close>
  \<^verbatim>\<open>state = torch.stack([state] * 4, dim=1)\<close> (lines 62-64, 90-92 and 109-111).
\<close>

definition new_episode :: "('e, 'o) collaborators \<Rightarrow> 'e \<Rightarrow> frames \<times> 'e" where
  "new_episode c e =
     (let (obs, e') = env_reset c e
      in (stack4 (state_processor c obs), e'))"

text \<open>
  The first four statements of both loop bodies (lines 66-69 and 119-122): decide,
  step the environment, preprocess, append the frame. The result is
  \<open>(action, epsilon, reward, done, next_state, environment)\<close>.
\<close>

definition interact ::
  "('e, 'o) collaborators \<Rightarrow> nat list \<Rightarrow> step_input \<Rightarrow> ('e, 'o) train_state
     \<Rightarrow> error + (int list \<times> real \<times> real \<times> bool \<times> frames \<times> 'e)" where
  "interact c q_network inp s =
     (case policy c (map (mem s) q_network) (policy_draws inp) (state s) (GLOBAL_STEP s) of
        Inl e \<Rightarrow> Inl e
      | Inr (action, epsilon) \<Rightarrow>
          (case action of
             [] \<Rightarrow> Inl IndexError
           | a0 # _ \<Rightarrow>
               (let ((obs, reward, done), e') = env_step c (env s) a0
                in case append_frame (state s) (state_processor c obs) of
                     Inl e \<Rightarrow> Inl e
                   | Inr next_state \<Rightarrow> Inr (action, epsilon, reward, done, next_state, e'))))"

text \<open>One iteration of the loop that fills the replay memory (lines 65-95).\<close>

definition populate_step ::
  "('e, 'o) collaborators \<Rightarrow> nat list \<Rightarrow> step_input \<Rightarrow> ('e, 'o) train_state
     \<Rightarrow> error + ('e, 'o) train_state" where
  "populate_step c q_network inp s =
     (case interact c q_network inp s of
        Inl e \<Rightarrow> Inl e
      | Inr (action, epsilon, reward, done, next_state, e') \<Rightarrow>
          (let rm = add (replay_memory s)
                      \<lparr>tr_state = state s, tr_action = action, tr_reward = reward,
                       tr_next_state = next_state, tr_done = (if done then 1 else 0)\<rparr>;
               (state', e'') = (if done then new_episode c e' else (next_state, e'))
           in Inr (s\<lparr>env := e'', state := state', replay_memory := rm,
                     GLOBAL_STEP := GLOBAL_STEP s + 1\<rparr>)))"

text \<open>
  The end of an episode and the start of the next one (lines 195-206 and 103-115): the
  generator yields \<^verbatim>\<open>GLOBAL_STEP, stats\<close>; when it is resumed the environment and the window
  are reset and the statistics cleared.
\<close>

definition episode_end :: "('e, 'o) collaborators \<Rightarrow> ('e, 'o) train_state \<Rightarrow> ('e, 'o) train_state" where
  "episode_end c s =
     (let (state', e') = new_episode c (env s)
      in s\<lparr>yielded := yielded s @ [(GLOBAL_STEP s, stats s)],
            i_episode := i_episode s + 1,
            env := e', state := state',
            stats := \<lparr>episode_lengths = 0, episode_rewards = 0\<rparr>,
            episode_t := 0\<rparr>)"

text \<open>
  One iteration of the inner loop of the main loop (lines 118-193), followed, when the
  episode is over (\<^verbatim>\<open>if done: break\<close>), by the episode boundary. \<^verbatim>\<open>replay_memory.sample\<close> is
  called in every iteration, and an exception of any callee leaves \<^verbatim>\<open>work\<close>.
\<close>

definition work_step ::
  "('e, 'o) collaborators \<Rightarrow> args \<Rightarrow> nat list \<Rightarrow> nat list \<Rightarrow> step_input \<Rightarrow> ('e, 'o) train_state
     \<Rightarrow> error + ('e, 'o) train_state" where
  "work_step c a q_network t_network inp s =
     (case interact c q_network inp s of
        Inl e \<Rightarrow> Inl e
      | Inr (action, epsilon, reward, done, next_state, e') \<Rightarrow>
          if update_target_estimator_every a = 0 then Inl ZeroDivisionError
          else
            (case (if GLOBAL_STEP s mod update_target_estimator_every a = 0
                   then load_state_dict (mem s) t_network (state_dict q_network)
                   else Inr (mem s)) of
               Inl e \<Rightarrow> Inl e
             | Inr mem1 \<Rightarrow>
                 (let rm = add (replay_memory s)
                             \<lparr>tr_state = state s, tr_action = action, tr_reward = reward,
                              tr_next_state = next_state, tr_done = (if done then 1 else 0)\<rparr>;
                      stats1 = \<lparr>episode_lengths = episode_t s,
                                episode_rewards = episode_rewards (stats s) + reward\<rparr>
                  in case sample rm (batch_size a) (sample_draws inp) of
                       Inl e \<Rightarrow> Inl e
                     | Inr batch \<Rightarrow>
                         (let state_batch = map tr_state batch;
                              action_batch = map tr_action batch;
                              reward_batch = map tr_reward batch;
                              next_state_batch = map tr_next_state batch;
                              done_batch = map tr_done batch;
                              q_next = net_forward c (map mem1 t_network) next_state_batch
                          in case t_values (discount_factor a) reward_batch done_batch q_next of
                               Inl e \<Rightarrow> Inl e
                             | Inr tv \<Rightarrow>
                                 (let (new_q, opt') =
                                        gradient_step c (optimizer s) (map mem1 q_network)
                                          state_batch action_batch tv;
                                      mem2 = write_params q_network new_q mem1;
                                      s1 = s\<lparr>env := e', replay_memory := rm, stats := stats1,
                                             mem := mem2, optimizer := opt'\<rparr>
                                  in if done then Inr (episode_end c s1)
                                     else Inr (s1\<lparr>state := next_state,
                                                 GLOBAL_STEP := GLOBAL_STEP s + 1,
                                                 episode_t := episode_t s + 1\<rparr>))))))"

text \<open>A loop over a list of inputs that stops at the first exception.\<close>

fun run_steps :: "('i \<Rightarrow> 's \<Rightarrow> error + 's) \<Rightarrow> 'i list \<Rightarrow> 's \<Rightarrow> error + 's" where
  "run_steps f [] s = Inr s"
| "run_steps f (i # is) s = (case f i s of Inl e \<Rightarrow> Inl e | Inr s' \<Rightarrow> run_steps f is s')"

text \<open>
  \<^verbatim>\<open>work\<close> from a fresh process (\<^verbatim>\<open>GLOBAL_STEP = 0\<close>, line 15): the replay memory is
  created, the environment reset, the memory filled by \<^verbatim>\<open>replay_memory_init_size\<close>
  iterations (their draws are \<open>warm 0, warm 1, \<dots>\<close>), and the main loop entered. The main loop
  does not end by itself; \<open>main\<close> holds the draws of the iterations that are run, so the
  result is the state after that many iterations of the inner loop.
\<close>

definition work ::
  "('e, 'o) collaborators \<Rightarrow> args \<Rightarrow> nat list \<Rightarrow> nat list \<Rightarrow> memory \<Rightarrow> 'o \<Rightarrow> 'e
     \<Rightarrow> (nat \<Rightarrow> step_input) \<Rightarrow> step_input list \<Rightarrow> error + ('e, 'o) train_state" where
  "work c a q_network t_network m0 opt0 e0 warm main =
     (let (state0, e1) = new_episode c e0;
          s0 = \<lparr>GLOBAL_STEP = 0, env = e1, state = state0,
                replay_memory = \<lparr>buffer_size = replay_memory_size a, contents = [], cursor = 0\<rparr>,
                stats = \<lparr>episode_lengths = 0, episode_rewards = 0\<rparr>,
                mem = m0, optimizer = opt0, i_episode = 0, episode_t = 0, yielded = []\<rparr>
      in case run_steps (populate_step c q_network)
                (map warm [0..<replay_memory_init_size a]) s0 of
           Inl e \<Rightarrow> Inl e
         | Inr s1 \<Rightarrow>
             (let (state1, e2) = new_episode c (env s1)
              in run_steps (work_step c a q_network t_network) main
                   (s1\<lparr>env := e2, state := state1,
                       stats := \<lparr>episode_lengths = 0, episode_rewards = 0\<rparr>,
                       episode_t := 0\<rparr>)))"

section \<open>The shape of the window\<close>

text \<open>
  A window of shape \<open>[1, 4, H, W]\<close>: one channel holding exactly four frames. The invariant
  of the loop: the current state is such a window, and so are the state and the next
  state of every transition in the replay memory.
\<close>

definition window4 :: "'pl list list \<Rightarrow> bool" where
  "window4 st \<longleftrightarrow> map length st = [4]"

definition frames_invariant :: "('e, 'o) train_state \<Rightarrow> bool" where
  "frames_invariant s \<longleftrightarrow>
     window4 (state s)
     \<and> list_all (\<lambda>tr. window4 (tr_state tr) \<and> window4 (tr_next_state tr))
         (contents (replay_memory s))"

section \<open>Concrete instances\<close>

text \<open>
  Small networks on which the theorems below are instantiated: the input sample is a list
  of reals, the convolution stack wraps it into a one-channel, one-row tensor, and the
  heads are fixed linear maps.
\<close>

definition example_dddqn :: "real list DDDQN_Network" where
  "example_dddqn =
     \<lparr> DDDQN_Network.batch_size = 2, DDDQN_Network.action_space = 3,
       DDDQN_Network.conv1 = (\<lambda>x. [[x]]), DDDQN_Network.conv2 = (\<lambda>t. t),
       DDDQN_Network.conv3 = (\<lambda>t. t),
       value_fc = (\<lambda>h. h), value_l = (\<lambda>h. 10 * sum_list h),
       advantage_fc = (\<lambda>h. h), advantage = (\<lambda>h. [sum_list h, 2, 0]) \<rparr>"

definition example_dqn :: "real list DQN_Network" where
  "example_dqn =
     \<lparr> DQN_Network.batch_size = 2, DQN_Network.action_space = 3,
       DQN_Network.conv1 = (\<lambda>x. [[x]]), DQN_Network.conv2 = (\<lambda>t. t),
       DQN_Network.conv3 = (\<lambda>t. t),
       fc1 = (\<lambda>h. h), fc2 = (\<lambda>h. [sum_list h, 5, 0]),
       prediction = [[1, 5, 0], [7, 5, 0]] \<rparr>"

text \<open>
  A small training set-up. The state of the environment counts the calls of \<^verbatim>\<open>env.step\<close>;
  every step ends its episode with reward 1. The preprocessor sums the colour channels of
  a pixel, the policy always chooses action 0 with epsilon one half, a network outputs its
  parameters' entries for every sample, and the gradient update is the one of a vanishing
  gradient: it leaves the parameters as they are.
\<close>

definition example_collab :: "(nat, unit) collaborators" where
  "example_collab =
     \<lparr> env_reset = (\<lambda>e. ([[[0]]], e)),
       env_step = (\<lambda>e a. (([[[real_of_int a]]], 1, True), Suc e)),
       state_processor = (\<lambda>raw. [map (map sum_list) raw]),
       policy = (\<lambda>params draws st step. Inr ([0], 1 / 2)),
       net_forward = (\<lambda>params X. map (\<lambda>x. concat params) X),
       gradient_step = (\<lambda>opt params sb ab tv. (params, opt)) \<rparr>"

definition example_args :: args where
  "example_args =
     \<lparr> replay_memory_size = 10, replay_memory_init_size = 0, batch_size = 1,
       update_target_estimator_every = 20, discount_factor = 95 / 100 \<rparr>"

definition example_input :: step_input where
  "example_input = \<lparr> policy_draws = (0, 0), sample_draws = (\<lambda>k. k) \<rparr>"

definition example_warm :: "nat \<Rightarrow> step_input" where
  "example_warm = (\<lambda>i. example_input)"

definition example_mem :: memory where
  "example_mem = (\<lambda>a. [0])(0 := [1, 2], 1 := [3, 4])"

text \<open>
  A second set-up, for the window. The state of the environment counts the calls of
  \<^verbatim>\<open>env.step\<close>; the frame it shows has one pixel whose value is that count, both after a
  step and after a reset, and every third step ends an episode. The replay memory is
  filled by two iterations before the main loop.
\<close>

definition counting_collab :: "(nat, unit) collaborators" where
  "counting_collab =
     \<lparr> env_reset = (\<lambda>e. ([[[real e]]], e)),
       env_step = (\<lambda>e a. (([[[real (Suc e)]]], 1, Suc e mod 3 = 0), Suc e)),
       state_processor = (\<lambda>raw. [map (map sum_list) raw]),
       policy = (\<lambda>params draws st step. Inr ([0], 1 / 2)),
       net_forward = (\<lambda>params X. map (\<lambda>x. concat params) X),
       gradient_step = (\<lambda>opt params sb ab tv. (params, opt)) \<rparr>"

definition counting_args :: args where
  "counting_args =
     \<lparr> replay_memory_size = 10, replay_memory_init_size = 2, batch_size = 1,
       update_target_estimator_every = 20, discount_factor = 95 / 100 \<rparr>"

text \<open>A probe batch of one state: the window of four zero frames of one pixel.\<close>

definition example_probe :: "frames list" where
  "example_probe = [[[[[0]], [[0]], [[0]], [[0]]]]]"

section \<open>Properties\<close>

subsection \<open>Row maxima\<close>



lemma torch_max_total: "xs \<noteq> [] \<Longrightarrow> \<exists>m i. torch_max xs = Inr (m, i)"
  by (induction xs rule: torch_max.induct) (auto split: sum.splits)

lemma torch_max_sound:
  "torch_max xs = Inr (m, i) \<Longrightarrow> i < length xs \<and> xs ! i = m \<and> (\<forall>x\<in>set xs. x \<le> m)"
proof (induction xs arbitrary: m i rule: torch_max.induct)
  case 1
  then show ?case by simp
next
  case (2 x)
  then show ?case by simp
next
  case (3 x y ys)
  from "3.prems" obtain m' i' where rec: "torch_max (y # ys) = Inr (m', i')"
    by (auto split: sum.splits)
  from "3.IH" [OF rec] have ih: "i' < length (y # ys)" "(y # ys) ! i' = m'"
    "\<forall>z\<in>set (y # ys). z \<le> m'" by simp_all
  show ?case
  proof (cases "x < m'")
    case True
    with "3.prems" rec have "m = m'" "i = Suc i'" by simp_all
    with ih True show ?thesis by auto
  next
    case False
    with "3.prems" rec have "m = x" "i = 0" by simp_all
    with ih False show ?thesis by fastforce
  qed
qed

lemma torch_max_Max: "torch_max xs = Inr (m, i) \<Longrightarrow> m = Max (set xs)"
proof -
  assume h: "torch_max xs = Inr (m, i)"
  from torch_max_sound [OF h] have "i < length xs" "xs ! i = m" "\<forall>x\<in>set xs. x \<le> m"
    by simp_all
  then have "m \<in> set xs" "\<forall>x\<in>set xs. x \<le> m" by auto
  then have "Max (set xs) = m" by (intro Max_eqI) auto
  then show ?thesis by simp
qed


subsection \<open>C1: the TD target\<close>



subsection \<open>The dueling forward pass\<close>

lemma DDDQN_forward_rows:
  assumes "X \<noteq> []"
  shows "\<exists>Q. DDDQN_forward net X = Inr Q \<and> length Q = length X
           \<and> (\<forall>i<length X. Q ! i =
                 map (\<lambda>a. value_of net (X ! i) + (a - mean_dim1 (advantage_of net (X ! i))))
                   (advantage_of net (X ! i)))"
proof -
  let ?Q = "map (\<lambda>x. map (\<lambda>a. value_of net x + (a - mean_dim1 (advantage_of net x)))
                        (advantage_of net x)) X"
  have r: "DDDQN_forward net X = Inr ?Q" using assms by (simp add: DDDQN_forward_def Let_def)
  have l: "length ?Q = length X" by simp
  have n: "\<forall>i<length X. ?Q ! i =
                 map (\<lambda>a. value_of net (X ! i) + (a - mean_dim1 (advantage_of net (X ! i))))
                   (advantage_of net (X ! i))" by simp
  show ?thesis
    apply (rule exI [of _ ?Q])
    apply (intro conjI)
      apply (rule r)
     apply (rule l)
    apply (rule n)
    done
qed

lemma DDDQN_forward_empty: "DDDQN_forward net [] = Inl ShapeError"
  by (simp add: DDDQN_forward_def)

lemma DDDQN_forward_single:
  "\<exists>q. DDDQN_forward net [x] = Inr [q] \<and> length q = length (advantage_of net x)"
  by (simp add: DDDQN_forward_def Let_def)

lemma example_dddqn_advantage: "advantage_of example_dddqn x = [sum_list x, 2, 0]"
  by (simp add: advantage_of_def X_flatten_def example_dddqn_def)

lemma example_dddqn_value: "value_of example_dddqn x = 10 * sum_list x"
  by (simp add: value_of_def X_flatten_def example_dddqn_def)

text \<open>
  C3. The forward pass of the dueling network returns, for a batch with a sample \<open>i\<close>, an
  output \<open>Q\<close> in which the entry of sample \<open>i\<close> and action \<open>a\<close> is \<open>V + (A[a] - mean A)\<close>,
  where \<open>V\<close> is the value head's output and \<open>A\<close> the advantage head's output for that
  sample; hence for two actions of the same sample the difference of the Q-values is the
  difference of the advantages.
\<close>

theorem dueling_decomposition:
  assumes "i < length X" and "a1 < length (advantage_of net (X ! i))"
    and "a2 < length (advantage_of net (X ! i))"
  shows "\<exists>Q. DDDQN_forward net X = Inr Q
           \<and> Q ! i ! a1
               = value_of net (X ! i)
                 + (advantage_of net (X ! i) ! a1 - mean_dim1 (advantage_of net (X ! i)))
           \<and> Q ! i ! a1 - Q ! i ! a2
               = advantage_of net (X ! i) ! a1 - advantage_of net (X ! i) ! a2"
proof -
  from assms(1) have "X \<noteq> []" by auto
  from DDDQN_forward_rows [OF this, of net] obtain Q where
    r: "DDDQN_forward net X = Inr Q"
    and row: "\<forall>i<length X. Q ! i =
                 map (\<lambda>a. value_of net (X ! i) + (a - mean_dim1 (advantage_of net (X ! i))))
                   (advantage_of net (X ! i))"
    by (elim exE conjE)
  from row assms(1) have qi: "Q ! i =
                 map (\<lambda>a. value_of net (X ! i) + (a - mean_dim1 (advantage_of net (X ! i))))
                   (advantage_of net (X ! i))" by simp
  have v1: "Q ! i ! a1 = value_of net (X ! i)
                 + (advantage_of net (X ! i) ! a1 - mean_dim1 (advantage_of net (X ! i)))"
    using assms(2) by (simp add: qi)
  have v2: "Q ! i ! a2 = value_of net (X ! i)
                 + (advantage_of net (X ! i) ! a2 - mean_dim1 (advantage_of net (X ! i)))"
    using assms(3) by (simp add: qi)
  have d: "Q ! i ! a1 - Q ! i ! a2
               = advantage_of net (X ! i) ! a1 - advantage_of net (X ! i) ! a2"
    by (simp add: v1 v2)
  show ?thesis
    apply (rule exI [of _ Q])
    apply (intro conjI)
      apply (rule r)
     apply (rule v1)
    apply (rule d)
    done
qed

theorem dueling_decomposition_witness:
  "\<exists>Q. DDDQN_forward example_dddqn [[1, 2]] = Inr Q
     \<and> Q ! 0 ! 0 = 30 + (3 - 5 / 3)
     \<and> Q ! 0 ! 0 - Q ! 0 ! 2 = 3"
proof -
  have i: "(0::nat) < length [[1, 2 :: real]]" by simp
  have a1: "0 < length (advantage_of example_dddqn ([[1, 2]] ! 0))"
    by (simp add: example_dddqn_advantage)
  have a2: "2 < length (advantage_of example_dddqn ([[1, 2]] ! 0))"
    by (simp add: example_dddqn_advantage)
  from dueling_decomposition [OF i a1 a2] show ?thesis
    by (simp add: example_dddqn_advantage example_dddqn_value mean_dim1_def)
qed

subsection \<open>The epsilon schedule\<close>

lemma eps_threshold_formula:
  "eps_threshold eps_end eps_start eps_decay s
     = eps_end + (eps_start - eps_end) * exp (- (eps_decay * real_of_int s))"
  by (simp add: eps_threshold_def mult.commute)

lemma eps_threshold_mono:
  assumes "eps_end \<le> eps_start" and "0 \<le> eps_decay" and "s \<le> s'"
  shows "eps_threshold eps_end eps_start eps_decay s' \<le> eps_threshold eps_end eps_start eps_decay s"
proof -
  have "eps_decay * real_of_int s \<le> eps_decay * real_of_int s'"
    using assms(2,3) by (simp add: mult_left_mono)
  then have "exp (- (eps_decay * real_of_int s')) \<le> exp (- (eps_decay * real_of_int s))"
    by simp
  then have "(eps_start - eps_end) * exp (- (eps_decay * real_of_int s'))
               \<le> (eps_start - eps_end) * exp (- (eps_decay * real_of_int s))"
    using assms(1) by (simp add: mult_left_mono)
  then show ?thesis by (simp add: eps_threshold_formula)
qed

lemma eps_threshold_zero: "eps_threshold eps_end eps_start eps_decay 0 = eps_start"
  by (simp add: eps_threshold_def)

lemma eps_threshold_bounds:
  assumes "eps_end \<le> eps_start" and "0 \<le> eps_decay" and "0 \<le> s"
  shows "eps_end \<le> eps_threshold eps_end eps_start eps_decay s"
    and "eps_threshold eps_end eps_start eps_decay s \<le> eps_start"
proof -
  have "0 \<le> (eps_start - eps_end) * exp (- (eps_decay * real_of_int s))"
    using assms(1) by simp
  then show "eps_end \<le> eps_threshold eps_end eps_start eps_decay s"
    by (simp add: eps_threshold_formula)
  from eps_threshold_mono [OF assms(1,2,3)]
  show "eps_threshold eps_end eps_start eps_decay s \<le> eps_start"
    by (simp add: eps_threshold_zero)
qed

lemma DDDQN_policy_fn_eps:
  "DDDQN_policy_fn network eps_end eps_start eps_decay actions draws observation s = Inr (a, e)
     \<Longrightarrow> e = eps_threshold eps_end eps_start eps_decay s"
  by (auto simp: DDDQN_policy_fn_def Let_def split: if_splits list.splits sum.splits)

text \<open>
  C4. The threshold that the dueling variant's policy compares its random sample with, and
  returns as the epsilon of the decision, at global step \<open>s\<close> is
  \<open>eps_end + (eps_start - eps_end) * exp (- eps_decay * s)\<close>. With \<open>eps_end \<le> eps_start\<close>
  and \<open>eps_decay \<ge> 0\<close> it does not increase from a step \<open>s \<ge> 0\<close> to a later step \<open>s'\<close>,
  it is \<open>eps_start\<close> at step 0, and it lies between \<open>eps_end\<close> and \<open>eps_start\<close>.
\<close>

theorem epsilon_schedule:
  assumes "eps_end \<le> eps_start" and "0 \<le> eps_decay" and "0 \<le> s" and "s \<le> s'"
  shows "eps_threshold eps_end eps_start eps_decay s
           = eps_end + (eps_start - eps_end) * exp (- (eps_decay * real_of_int s))
       \<and> (\<forall>a e. DDDQN_policy_fn network eps_end eps_start eps_decay actions draws observation s
                   = Inr (a, e)
                 \<longrightarrow> e = eps_threshold eps_end eps_start eps_decay s)
       \<and> eps_threshold eps_end eps_start eps_decay s'
           \<le> eps_threshold eps_end eps_start eps_decay s
       \<and> eps_threshold eps_end eps_start eps_decay 0 = eps_start
       \<and> eps_end \<le> eps_threshold eps_end eps_start eps_decay s
       \<and> eps_threshold eps_end eps_start eps_decay s \<le> eps_start"
proof (intro conjI allI impI)
  show "eps_threshold eps_end eps_start eps_decay s
          = eps_end + (eps_start - eps_end) * exp (- (eps_decay * real_of_int s))"
    by (rule eps_threshold_formula)
  show "eps_threshold eps_end eps_start eps_decay s'
          \<le> eps_threshold eps_end eps_start eps_decay s"
    using assms(1,2,4) by (rule eps_threshold_mono)
  show "eps_threshold eps_end eps_start eps_decay 0 = eps_start"
    by (rule eps_threshold_zero)
  show "eps_end \<le> eps_threshold eps_end eps_start eps_decay s"
    using assms(1,2,3) by (rule eps_threshold_bounds)
  show "eps_threshold eps_end eps_start eps_decay s \<le> eps_start"
    using assms(1,2,3) by (rule eps_threshold_bounds)
next
  fix a e
  assume "DDDQN_policy_fn network eps_end eps_start eps_decay actions draws observation s
            = Inr (a, e)"
  then show "e = eps_threshold eps_end eps_start eps_decay s"
    by (rule DDDQN_policy_fn_eps)
qed

theorem epsilon_schedule_witness:
  "eps_threshold (1 / 100) 1 (1 / 1000) 10 \<le> eps_threshold (1 / 100) 1 (1 / 1000) 3
   \<and> eps_threshold (1 / 100) 1 (1 / 1000) 0 = 1
   \<and> 1 / 100 \<le> eps_threshold (1 / 100) 1 (1 / 1000) 3
   \<and> eps_threshold (1 / 100) 1 (1 / 1000) 3 \<le> 1"
proof -
  have h1: "(1 / 100 :: real) \<le> 1" by simp
  have h2: "(0 :: real) \<le> 1 / 1000" by simp
  have h3: "(0 :: int) \<le> 3" by simp
  have h4: "(3 :: int) \<le> 10" by simp
  from epsilon_schedule [OF h1 h2 h3 h4, where network = example_dddqn
      and actions = "[0, 1, 2 :: nat]" and draws = "(0, 0)" and observation = "[1]"]
  show ?thesis by (elim conjE) (intro conjI)
qed

subsection \<open>The epsilon-greedy decision\<close>

text \<open>
  C5. One decision of the dueling variant's policy, for a non-empty action list and a
  network whose advantage head has one output per action (as \<^verbatim>\<open>run\<close> in \<^verbatim>\<open>main.py\<close>
  builds it, with \<^verbatim>\<open>action_space = len(args.actions)\<close>): the policy draws \<open>sample\<close>; if
  \<open>sample \<le> eps_threshold\<close> it returns the value of \<^verbatim>\<open>np.random.randint(0, len(actions))\<close>,
  otherwise an index at which the network's values for the observation are maximal; either
  way the action is one of \<open>0, \<dots>, len(actions) - 1\<close>. The draws are inputs of the model,
  so the theorem says which draw is returned, not how it is distributed.
\<close>

theorem epsilon_greedy_action:
  assumes "actions \<noteq> []"
    and "length (advantage_of network observation) = length actions"
  shows "(fst draws \<le> eps_threshold eps_end eps_start eps_decay s \<longrightarrow>
            DDDQN_policy_fn network eps_end eps_start eps_decay actions draws observation s
              = Inr (snd draws mod length actions, eps_threshold eps_end eps_start eps_decay s))
       \<and> (eps_threshold eps_end eps_start eps_decay s < fst draws \<longrightarrow>
            (\<exists>a q. DDDQN_forward network [observation] = Inr [q]
               \<and> DDDQN_policy_fn network eps_end eps_start eps_decay actions draws observation s
                   = Inr (a, eps_threshold eps_end eps_start eps_decay s)
               \<and> a < length q \<and> q ! a = Max (set q)))
       \<and> (\<exists>a. DDDQN_policy_fn network eps_end eps_start eps_decay actions draws observation s
                 = Inr (a, eps_threshold eps_end eps_start eps_decay s)
               \<and> a \<in> {0..<length actions})"
proof -
  let ?eps = "eps_threshold eps_end eps_start eps_decay s"
  let ?p = "DDDQN_policy_fn network eps_end eps_start eps_decay actions draws observation s"
  have n: "0 < length actions" using assms(1) by simp
  from DDDQN_forward_single [of network observation]
  obtain q where q: "DDDQN_forward network [observation] = Inr [q]"
    and lq: "length q = length (advantage_of network observation)" by (elim exE conjE)
  have qne: "q \<noteq> []" using lq assms by auto
  from torch_max_total [OF qne] obtain m b where mb: "torch_max q = Inr (m, b)" by blast
  from torch_max_sound [OF mb] torch_max_Max [OF mb]
  have b: "b < length q" "q ! b = Max (set q)" by simp_all
  have explore: "fst draws \<le> ?eps \<Longrightarrow> ?p = Inr (snd draws mod length actions, ?eps)"
    using n by (simp add: DDDQN_policy_fn_def randint_def Let_def)
  have exploit: "?eps < fst draws \<Longrightarrow> ?p = Inr (b, ?eps)"
    using q mb by (simp add: DDDQN_policy_fn_def Let_def)
  have c1: "fst draws \<le> ?eps \<longrightarrow> ?p = Inr (snd draws mod length actions, ?eps)"
    using explore by blast
  have c2: "?eps < fst draws \<longrightarrow>
              (\<exists>a q. DDDQN_forward network [observation] = Inr [q] \<and> ?p = Inr (a, ?eps)
                 \<and> a < length q \<and> q ! a = Max (set q))"
    using exploit q b by blast
  have c3: "\<exists>a. ?p = Inr (a, ?eps) \<and> a \<in> {0..<length actions}"
  proof (cases "fst draws \<le> ?eps")
    case True
    with explore n show ?thesis by simp
  next
    case False
    with exploit b lq assms(2) show ?thesis by simp
  qed
  from c1 c2 c3 show ?thesis by blast
qed

theorem epsilon_greedy_action_witness:
  "DDDQN_policy_fn example_dddqn (1 / 2) (1 / 2) 0 [0, 1, 2 :: nat] (1 / 4, 7) [1, 2] 0
     = Inr (1, 1 / 2)
   \<and> (\<exists>a q. DDDQN_forward example_dddqn [[1, 2]] = Inr [q]
         \<and> DDDQN_policy_fn example_dddqn (1 / 2) (1 / 2) 0 [0, 1, 2 :: nat] (3 / 4, 7) [1, 2] 0
             = Inr (a, 1 / 2)
         \<and> a < length q \<and> q ! a = Max (set q))"
proof -
  have e: "eps_threshold (1 / 2) (1 / 2) 0 0 = 1 / 2" by (simp add: eps_threshold_def)
  have h1: "[0, 1, 2 :: nat] \<noteq> []" by simp
  have h2: "length (advantage_of example_dddqn [1, 2]) = length [0, 1, 2 :: nat]"
    by (simp add: example_dddqn_advantage)
  from epsilon_greedy_action [OF h1 h2, where draws = "(1 / 4, 7)" and eps_end = "1 / 2"
      and eps_start = "1 / 2" and eps_decay = 0 and s = 0]
  have explore: "DDDQN_policy_fn example_dddqn (1 / 2) (1 / 2) 0 [0, 1, 2 :: nat] (1 / 4, 7) [1, 2] 0
     = Inr (1, 1 / 2)"
    by (simp add: e)
  from epsilon_greedy_action [OF h1 h2, where draws = "(3 / 4, 7)" and eps_end = "1 / 2"
      and eps_start = "1 / 2" and eps_decay = 0 and s = 0]
  have exploit: "\<exists>a q. DDDQN_forward example_dddqn [[1, 2]] = Inr [q]
         \<and> DDDQN_policy_fn example_dddqn (1 / 2) (1 / 2) 0 [0, 1, 2 :: nat] (3 / 4, 7) [1, 2] 0
             = Inr (a, 1 / 2)
         \<and> a < length q \<and> q ! a = Max (set q)"
    by (simp add: e)
  from explore exploit show ?thesis by (rule conjI)
qed

subsection \<open>The action probabilities of the DQN variant\<close>

lemma sum_list_list_update:
  "i < length xs \<Longrightarrow> sum_list (xs[i := v]) = sum_list xs - xs ! i + (v :: real)"
proof (induction xs arbitrary: i)
  case Nil
  then show ?case by simp
next
  case (Cons x xs)
  then show ?case by (cases i) simp_all
qed

text \<open>
  C10. For a DQN network with at least one action whose forward pass returns one value
  per action, \<^verbatim>\<open>policy_fn(observation, epsilon)\<close> returns a vector with one entry per
  action; every entry is \<open>epsilon / action_space\<close>, except that the entry of the action with
  the maximal value is larger by \<open>1 - epsilon\<close>; the entries sum to 1 (in exact arithmetic),
  for every \<open>epsilon\<close>.
\<close>

theorem dqn_policy_probabilities:
  assumes "0 < DQN_Network.action_space network"
    and "DQN_forward network [observation] = Inr ([q], network1)"
    and "length q = DQN_Network.action_space network"
  shows "\<exists>A best.
           DQN_policy_fn network observation epsilon = Inr (A, network1)
         \<and> length A = DQN_Network.action_space network
         \<and> sum_list A = 1
         \<and> best < length q \<and> q ! best = Max (set q)
         \<and> (\<forall>a<DQN_Network.action_space network.
               A ! a = epsilon / real (DQN_Network.action_space network)
                        + (if a = best then 1 - epsilon else 0))"
proof -
  let ?n = "DQN_Network.action_space network"
  define A0 where "A0 = map (\<lambda>one. one * epsilon / real ?n) (replicate ?n (1::real))"
  have A0: "A0 = replicate ?n (epsilon / real ?n)" by (simp add: A0_def)
  have "q \<noteq> []" using assms(1,3) by auto
  from torch_max_total [OF this] obtain m best where mb: "torch_max q = Inr (m, best)" by blast
  from torch_max_sound [OF mb] torch_max_Max [OF mb]
  have b: "best < length q" "q ! best = Max (set q)" by simp_all
  then have bn: "best < ?n" using assms(3) by simp
  define A where "A = A0[best := A0 ! best + (1 - epsilon)]"
  have res: "DQN_policy_fn network observation epsilon = Inr (A, network1)"
    using assms(2) mb bn by (simp add: DQN_policy_fn_def Let_def A_def A0_def)
  have len: "length A = ?n" by (simp add: A_def A0)
  have lA0: "best < length A0" using bn by (simp add: A0)
  have sA0: "sum_list A0 = epsilon" using assms(1) by (simp add: A0 sum_list_replicate)
  have "sum_list A = sum_list A0 - A0 ! best + (A0 ! best + (1 - epsilon))"
    unfolding A_def by (rule sum_list_list_update [OF lA0])
  then have s: "sum_list A = 1" using sA0 by simp
  have v: "\<forall>a<?n. A ! a = epsilon / real ?n + (if a = best then 1 - epsilon else 0)"
    using bn by (simp add: A_def A0 nth_list_update)
  show ?thesis
    apply (rule exI [of _ A], rule exI [of _ best])
    apply (intro conjI)
         apply (rule res)
        apply (rule len)
       apply (rule s)
      apply (rule b(1))
     apply (rule b(2))
    apply (rule v)
    done
qed

theorem dqn_policy_probabilities_witness:
  "\<exists>A best.
     DQN_policy_fn example_dqn [1, 2] (1 / 10)
       = Inr (A, example_dqn\<lparr>prediction := [[3, 5, 0]]\<rparr>)
     \<and> length A = DQN_Network.action_space example_dqn
     \<and> sum_list A = 1
     \<and> best < length [3, 5, 0 :: real] \<and> [3, 5, 0 :: real] ! best = Max (set [3, 5, 0])
     \<and> (\<forall>a<DQN_Network.action_space example_dqn.
           A ! a = (1 / 10) / real (DQN_Network.action_space example_dqn)
                    + (if a = best then 1 - 1 / 10 else 0))"
proof -
  have h1: "0 < DQN_Network.action_space example_dqn" by (simp add: example_dqn_def)
  have h2: "DQN_forward example_dqn [[1, 2]]
              = Inr ([[3, 5, 0]], example_dqn\<lparr>prediction := [[3, 5, 0]]\<rparr>)"
    by (simp add: DQN_forward_def example_dqn_def Let_def)
  have h3: "length [3, 5, 0 :: real] = DQN_Network.action_space example_dqn"
    by (simp add: example_dqn_def)
  show ?thesis by (rule dqn_policy_probabilities [OF h1 h2 h3])
qed

subsection \<open>Gathering the values of the chosen actions\<close>

lemma sequence_map_nth:
  assumes "\<forall>i<length xs. f (xs ! i) = Inr (g i)"
  shows "sequence (map f xs) = Inr (map g [0..<length xs])"
  using assms
proof (induction xs arbitrary: g)
  case Nil
  then show ?case by simp
next
  case (Cons x xs)
  have hd: "f x = Inr (g 0)" using Cons.prems by auto
  have "\<forall>i<length xs. f (xs ! i) = Inr ((\<lambda>i. g (Suc i)) i)" using Cons.prems by auto
  from Cons.IH [OF this] have tl: "sequence (map f xs) = Inr (map (\<lambda>i. g (Suc i)) [0..<length xs])" .
  have "map g [0..<length (x # xs)] = g 0 # map (\<lambda>i. g (Suc i)) [0..<length xs]"
    by (simp add: upt_conv_Cons map_Suc_upt [symmetric] del: upt_Suc)
  with hd tl show ?case by simp
qed

lemma sum_list_one_hot:
  assumes "length row = n" and "a < n"
  shows "sum_list (map2 (*) row (one_hot n a)) = row ! a"
proof -
  have "sum_list (map2 (*) row (one_hot n a))
          = (\<Sum>i = 0..<n. row ! i * (if i = a then 1 else 0))"
    using assms(1) by (simp add: sum_list_sum_nth one_hot_def)
  also have "\<dots> = (\<Sum>i = 0..<n. if i = a then row ! a else 0)"
    by (intro sum.cong) auto
  also have "\<dots> = row ! a" using assms(2) by simp
  finally show ?thesis .
qed

lemma broadcast_same_length:
  "length xs = length ys \<Longrightarrow> broadcast f xs ys = Inr (map2 f xs ys)"
  by (simp add: broadcast_def)

lemma length_one_hot: "length (one_hot n a) = n"
  by (simp add: one_hot_def)

lemma compute_q_value_gather:
  assumes ne: "states \<noteq> []" and len: "length acts = length states"
    and cols: "\<forall>x\<in>set states. length (advantage_of net x) = n"
    and legal: "\<forall>a\<in>set acts. a < n"
  shows "\<exists>Q out. DDDQN_forward net states = Inr Q
           \<and> compute_q_value net states (map (one_hot n) acts) = Inr out
           \<and> length out = length states
           \<and> (\<forall>i<length states. out ! i = Q ! i ! (acts ! i))"
proof -
  let ?B = "length states"
  let ?acts = "map (one_hot n) acts"
  from DDDQN_forward_rows [OF ne, of net] obtain Q where
    fw: "DDDQN_forward net states = Inr Q" and lq: "length Q = ?B"
    and row: "\<forall>i<?B. Q ! i =
                 map (\<lambda>a. value_of net (states ! i)
                            + (a - mean_dim1 (advantage_of net (states ! i))))
                   (advantage_of net (states ! i))"
    by (elim exE conjE)
  let ?g = "\<lambda>i. map2 (*) (Q ! i) (one_hot n (acts ! i))"
  have rowlen: "\<forall>i<?B. length (Q ! i) = n"
  proof (intro allI impI)
    fix i assume i: "i < ?B"
    then have "states ! i \<in> set states" by simp
    with cols have "length (advantage_of net (states ! i)) = n" by simp
    with row i show "length (Q ! i) = n" by simp
  qed
  have outer: "broadcast (broadcast (*)) Q ?acts = Inr (map2 (broadcast (*)) Q ?acts)"
    using lq len by (intro broadcast_same_length) simp
  have lz: "length (zip Q ?acts) = ?B" using lq len by simp
  have inner: "\<forall>i<length (zip Q ?acts).
                 (\<lambda>(r, a). broadcast (*) r a) (zip Q ?acts ! i) = Inr (?g i)"
  proof (intro allI impI)
    fix i assume "i < length (zip Q ?acts)"
    then have i: "i < ?B" using lq len by simp
    then have "length (Q ! i) = length (one_hot n (acts ! i))"
      using rowlen by (simp add: length_one_hot)
    then have "broadcast (*) (Q ! i) (one_hot n (acts ! i)) = Inr (?g i)"
      by (rule broadcast_same_length)
    then show "(\<lambda>(r, a). broadcast (*) r a) (zip Q ?acts ! i) = Inr (?g i)"
      using i lq len by simp
  qed
  from sequence_map_nth [OF inner]
  have sq: "sequence (map2 (broadcast (*)) Q ?acts) = Inr (map ?g [0..<?B])"
    using lz by simp
  have b2: "broadcast2 (*) Q ?acts = Inr (map ?g [0..<?B])"
    using outer sq by (simp add: broadcast2_def)
  have res: "compute_q_value net states ?acts = Inr (map sum_list (map ?g [0..<?B]))"
    using fw b2 by (simp add: compute_q_value_def)
  have val: "\<forall>i<?B. map sum_list (map ?g [0..<?B]) ! i = Q ! i ! (acts ! i)"
  proof (intro allI impI)
    fix i assume i: "i < ?B"
    then have "acts ! i \<in> set acts" using len by simp
    with legal have a: "acts ! i < n" by simp
    from rowlen i have "length (Q ! i) = n" by simp
    from sum_list_one_hot [OF this a] show "map sum_list (map ?g [0..<?B]) ! i = Q ! i ! (acts ! i)"
      using i by simp
  qed
  show ?thesis
    apply (rule exI [of _ Q], rule exI [of _ "map sum_list (map ?g [0..<?B])"])
    apply (intro conjI)
       apply (rule fw)
      apply (rule res)
     apply simp
    apply (rule val)
    done
qed

lemma compute_q_value_empty: "compute_q_value net [] actions = Inl ShapeError"
  by (simp add: compute_q_value_def DDDQN_forward_def)

text \<open>
  The dueling variant gathers: on a non-empty batch whose actions are one-hot rows of
  legal action ids, \<^verbatim>\<open>compute_q_value\<close> returns for every row the Q-value of the row's action
  (lemma \<open>compute_q_value_gather\<close>).

  C6 (the code differs). The DQN variant's \<^verbatim>\<open>compute_action_pred\<close> does not return the
  gathered values: the name \<^verbatim>\<open>i_type\<close>, which it calls in its first statement, is bound
  nowhere in \<^verbatim>\<open>model_dqn.py\<close>, so every call raises NameError, for every network and every
  batch of actions.
\<close>

theorem compute_action_pred_raises:
  "compute_action_pred net actions = Inl NameError"
  by (simp add: compute_action_pred_def model_dqn_globals_def)

subsection \<open>The stacked-frame window\<close>

lemma stack4_single: "stack4 [f] = [[f, f, f, f]]"
  by (simp add: stack4_def numeral_eq_Suc)

lemma window4_stack4: "length fr = 1 \<Longrightarrow> window4 (stack4 fr)"
  by (cases fr) (simp_all add: window4_def stack4_def)

lemma append_frame_shift: "append_frame [[f1, f2, f3, f4]] [p] = Inr [[f2, f3, f4, p]]"
  by (simp add: append_frame_def cat_dim1_def)

lemma window4_append_frame:
  assumes "window4 st" and "length fr = 1"
  shows "\<exists>st'. append_frame st fr = Inr st' \<and> window4 st'"
proof -
  from assms(1) obtain row where st: "st = [row]" and row: "length row = 4"
    by (cases st) (auto simp: window4_def)
  have "append_frame st fr = Inr [drop 1 row @ fr]"
    by (simp add: st append_frame_def cat_dim1_def)
  moreover have "window4 [drop 1 row @ fr]" using row assms(2) by (simp add: window4_def)
  ultimately show ?thesis by blast
qed

lemma window4_new_episode:
  assumes "\<forall>raw. length (state_processor c raw) = 1"
  shows "window4 (fst (new_episode c e))"
proof -
  obtain obs e' where r: "env_reset c e = (obs, e')" by (cases "env_reset c e")
  have "fst (new_episode c e) = stack4 (state_processor c obs)"
    by (simp add: new_episode_def r)
  with assms show ?thesis by (simp add: window4_stack4)
qed

lemma set_contents_add: "set (contents (add buf tr)) \<subseteq> insert tr (set (contents buf))"
proof (cases "length (contents buf) < buffer_size buf")
  case True
  then show ?thesis by (auto simp: add_def)
next
  case False
  have "set ((contents buf)[cursor buf := tr]) \<subseteq> insert tr (set (contents buf))"
    by (rule set_update_subset_insert)
  with False show ?thesis by (simp add: add_def)
qed

lemma interact_window4:
  assumes "\<forall>raw. length (state_processor c raw) = 1" and "window4 (state s)"
    and "interact c q inp s = Inr (action, epsilon, reward, done, next_state, e')"
  shows "window4 next_state"
proof -
  from assms(3) obtain a0 rest where pol: "policy c (map (mem s) q) (policy_draws inp) (state s) (GLOBAL_STEP s) = Inr (a0 # rest, epsilon)"
    by (auto simp: interact_def split: sum.splits list.splits prod.splits)
  obtain obs r d e1 where st: "env_step c (env s) a0 = ((obs, r, d), e1)"
    by (metis prod.exhaust)
  from assms(3) pol st have ap: "append_frame (state s) (state_processor c obs) = Inr next_state"
    by (auto simp: interact_def split: sum.splits)
  from window4_append_frame [OF assms(2), of "state_processor c obs"] assms(1)
  obtain st' where "append_frame (state s) (state_processor c obs) = Inr st'" "window4 st'"
    by auto
  with ap show ?thesis by simp
qed

lemma populate_step_cases:
  assumes "populate_step c q inp s = Inr s'"
  obtains action epsilon reward fin next_state e' where
    "interact c q inp s = Inr (action, epsilon, reward, fin, next_state, e')"
    "s' = s\<lparr>env := snd (if fin then new_episode c e' else (next_state, e')),
            state := fst (if fin then new_episode c e' else (next_state, e')),
            replay_memory := add (replay_memory s)
               \<lparr>tr_state = state s, tr_action = action, tr_reward = reward,
                tr_next_state = next_state, tr_done = (if fin then 1 else 0)\<rparr>,
            GLOBAL_STEP := GLOBAL_STEP s + 1\<rparr>"
proof (cases "interact c q inp s")
  case (Inl e)
  with assms show ?thesis by (simp add: populate_step_def)
next
  case (Inr r)
  obtain action epsilon reward fin next_state e' where
    r: "r = (action, epsilon, reward, fin, next_state, e')" by (metis prod.exhaust)
  from assms Inr r have "s' = s\<lparr>env := snd (if fin then new_episode c e' else (next_state, e')),
            state := fst (if fin then new_episode c e' else (next_state, e')),
            replay_memory := add (replay_memory s)
               \<lparr>tr_state = state s, tr_action = action, tr_reward = reward,
                tr_next_state = next_state, tr_done = (if fin then 1 else 0)\<rparr>,
            GLOBAL_STEP := GLOBAL_STEP s + 1\<rparr>"
    by (auto simp add: populate_step_def Let_def case_prod_beta)
  with Inr r that show ?thesis by blast
qed

lemma work_step_cases:
  assumes "work_step c a q t inp s = Inr s'"
  obtains action epsilon reward fin next_state e' mem1 batch tv new_q opt' where
    "interact c q inp s = Inr (action, epsilon, reward, fin, next_state, e')"
    "update_target_estimator_every a \<noteq> 0"
    "(if GLOBAL_STEP s mod update_target_estimator_every a = 0
      then load_state_dict (mem s) t (state_dict q) else Inr (mem s)) = Inr mem1"
    "sample (add (replay_memory s)
               \<lparr>tr_state = state s, tr_action = action, tr_reward = reward,
                tr_next_state = next_state, tr_done = (if fin then 1 else 0)\<rparr>)
       (batch_size a) (sample_draws inp) = Inr batch"
    "t_values (discount_factor a) (map tr_reward batch) (map tr_done batch)
       (net_forward c (map mem1 t) (map tr_next_state batch)) = Inr tv"
    "gradient_step c (optimizer s) (map mem1 q) (map tr_state batch) (map tr_action batch) tv
       = (new_q, opt')"
    "s' = (if fin
           then episode_end c
                  (s\<lparr>env := e',
                      replay_memory := add (replay_memory s)
                         \<lparr>tr_state = state s, tr_action = action, tr_reward = reward,
                          tr_next_state = next_state, tr_done = (if fin then 1 else 0)\<rparr>,
                      stats := \<lparr>episode_lengths = episode_t s,
                                episode_rewards = episode_rewards (stats s) + reward\<rparr>,
                      mem := write_params q new_q mem1, optimizer := opt'\<rparr>)
           else s\<lparr>env := e',
                   replay_memory := add (replay_memory s)
                      \<lparr>tr_state = state s, tr_action = action, tr_reward = reward,
                       tr_next_state = next_state, tr_done = (if fin then 1 else 0)\<rparr>,
                   stats := \<lparr>episode_lengths = episode_t s,
                             episode_rewards = episode_rewards (stats s) + reward\<rparr>,
                   mem := write_params q new_q mem1, optimizer := opt',
                   state := next_state, GLOBAL_STEP := GLOBAL_STEP s + 1,
                   episode_t := episode_t s + 1\<rparr>)"
proof (cases "interact c q inp s")
  case (Inl e)
  with assms show ?thesis by (simp add: work_step_def)
next
  case (Inr r)
  obtain action epsilon reward fin next_state e' where
    r: "r = (action, epsilon, reward, fin, next_state, e')" by (metis prod.exhaust)
  let ?tr = "\<lparr>tr_state = state s, tr_action = action, tr_reward = reward,
                tr_next_state = next_state, tr_done = (if fin then 1 else 0)\<rparr>"
  let ?sync = "if GLOBAL_STEP s mod update_target_estimator_every a = 0
      then load_state_dict (mem s) t (state_dict q) else Inr (mem s)"
  from assms Inr r have ne: "update_target_estimator_every a \<noteq> 0"
    by (auto simp: work_step_def)
  from assms Inr r ne obtain mem1 where m1: "?sync = Inr mem1"
    by (cases ?sync) (simp_all add: work_step_def)
  from assms Inr r ne m1 obtain batch where
    b: "sample (add (replay_memory s) ?tr) (batch_size a) (sample_draws inp) = Inr batch"
    by (cases "sample (add (replay_memory s) ?tr) (batch_size a) (sample_draws inp)")
       (simp_all add: work_step_def Let_def)
  let ?tv = "t_values (discount_factor a) (map tr_reward batch) (map tr_done batch)
       (net_forward c (map mem1 t) (map tr_next_state batch))"
  from assms Inr r ne m1 b obtain tv where tv: "?tv = Inr tv"
    by (cases ?tv) (simp_all add: work_step_def Let_def)
  obtain new_q opt' where g: "gradient_step c (optimizer s) (map mem1 q) (map tr_state batch)
      (map tr_action batch) tv = (new_q, opt')" by (metis prod.exhaust)
  from assms Inr r ne m1 b tv g have "s' = (if fin
           then episode_end c
                  (s\<lparr>env := e', replay_memory := add (replay_memory s) ?tr,
                      stats := \<lparr>episode_lengths = episode_t s,
                                episode_rewards = episode_rewards (stats s) + reward\<rparr>,
                      mem := write_params q new_q mem1, optimizer := opt'\<rparr>)
           else s\<lparr>env := e', replay_memory := add (replay_memory s) ?tr,
                   stats := \<lparr>episode_lengths = episode_t s,
                             episode_rewards = episode_rewards (stats s) + reward\<rparr>,
                   mem := write_params q new_q mem1, optimizer := opt',
                   state := next_state, GLOBAL_STEP := GLOBAL_STEP s + 1,
                   episode_t := episode_t s + 1\<rparr>)"
    by (simp add: work_step_def Let_def split: if_splits)
  with Inr r ne m1 b tv g that show ?thesis by blast
qed

lemma list_all_contents_add:
  "list_all P (contents buf) \<Longrightarrow> P tr \<Longrightarrow> list_all P (contents (add buf tr))"
  using set_contents_add [of buf tr] by (auto simp: list_all_iff)

lemma run_steps_invariant:
  assumes "\<And>i s s'. P s \<Longrightarrow> f i s = Inr s' \<Longrightarrow> P s'"
  shows "P s \<Longrightarrow> run_steps f inps s = Inr s' \<Longrightarrow> P s'"
proof (induction inps arbitrary: s)
  case Nil
  then show ?case by simp
next
  case (Cons i inps)
  from Cons.prems(2) obtain s1 where s1: "f i s = Inr s1" and rest: "run_steps f inps s1 = Inr s'"
    by (cases "f i s") simp_all
  from assms [OF Cons.prems(1) s1] have "P s1" .
  from Cons.IH [OF this rest] show ?case .
qed

lemma episode_end_fields:
  "state (episode_end c s) = fst (new_episode c (env s))"
  "replay_memory (episode_end c s) = replay_memory s"
  "GLOBAL_STEP (episode_end c s) = GLOBAL_STEP s"
  "mem (episode_end c s) = mem s"
  by (simp_all add: episode_end_def case_prod_beta)

lemma populate_step_invariant:
  assumes sp: "\<forall>raw. length (state_processor c raw) = 1"
    and inv: "frames_invariant s" and step: "populate_step c q inp s = Inr s'"
  shows "frames_invariant s'"
proof -
  from step obtain action epsilon reward fin next_state e' where
    i: "interact c q inp s = Inr (action, epsilon, reward, fin, next_state, e')"
    and s': "s' = s\<lparr>env := snd (if fin then new_episode c e' else (next_state, e')),
            state := fst (if fin then new_episode c e' else (next_state, e')),
            replay_memory := add (replay_memory s)
               \<lparr>tr_state = state s, tr_action = action, tr_reward = reward,
                tr_next_state = next_state, tr_done = (if fin then 1 else 0)\<rparr>,
            GLOBAL_STEP := GLOBAL_STEP s + 1\<rparr>"
    by (rule populate_step_cases)
  from inv have w: "window4 (state s)" by (simp add: frames_invariant_def)
  from interact_window4 [OF sp w i] have wn: "window4 next_state" .
  have ws: "window4 (state s')"
    using wn window4_new_episode [OF sp, of e'] by (simp add: s')
  have "list_all (\<lambda>tr. window4 (tr_state tr) \<and> window4 (tr_next_state tr))
          (contents (replay_memory s'))"
    unfolding s' using inv w wn
    by (simp add: frames_invariant_def list_all_contents_add)
  with ws show ?thesis by (simp add: frames_invariant_def)
qed

lemma populate_step_GLOBAL_STEP:
  assumes "populate_step c q inp s = Inr s'"
  shows "GLOBAL_STEP s' = GLOBAL_STEP s + 1"
proof -
  from assms obtain action epsilon reward fin next_state e' where
    "s' = s\<lparr>env := snd (if fin then new_episode c e' else (next_state, e')),
            state := fst (if fin then new_episode c e' else (next_state, e')),
            replay_memory := add (replay_memory s)
               \<lparr>tr_state = state s, tr_action = action, tr_reward = reward,
                tr_next_state = next_state, tr_done = (if fin then 1 else 0)\<rparr>,
            GLOBAL_STEP := GLOBAL_STEP s + 1\<rparr>"
    by (rule populate_step_cases)
  then show ?thesis by simp
qed

lemma work_step_invariant:
  assumes sp: "\<forall>raw. length (state_processor c raw) = 1"
    and inv: "frames_invariant s" and step: "work_step c a q t inp s = Inr s'"
  shows "frames_invariant s'"
proof -
  from step obtain action epsilon reward fin next_state e' mem1 batch tv new_q opt' where
    i: "interact c q inp s = Inr (action, epsilon, reward, fin, next_state, e')"
    and s': "s' = (if fin
           then episode_end c
                  (s\<lparr>env := e',
                      replay_memory := add (replay_memory s)
                         \<lparr>tr_state = state s, tr_action = action, tr_reward = reward,
                          tr_next_state = next_state, tr_done = (if fin then 1 else 0)\<rparr>,
                      stats := \<lparr>episode_lengths = episode_t s,
                                episode_rewards = episode_rewards (stats s) + reward\<rparr>,
                      mem := write_params q new_q mem1, optimizer := opt'\<rparr>)
           else s\<lparr>env := e',
                   replay_memory := add (replay_memory s)
                      \<lparr>tr_state = state s, tr_action = action, tr_reward = reward,
                       tr_next_state = next_state, tr_done = (if fin then 1 else 0)\<rparr>,
                   stats := \<lparr>episode_lengths = episode_t s,
                             episode_rewards = episode_rewards (stats s) + reward\<rparr>,
                   mem := write_params q new_q mem1, optimizer := opt',
                   state := next_state, GLOBAL_STEP := GLOBAL_STEP s + 1,
                   episode_t := episode_t s + 1\<rparr>)"
    by (rule work_step_cases)
  from inv have w: "window4 (state s)" by (simp add: frames_invariant_def)
  from interact_window4 [OF sp w i] have wn: "window4 next_state" .
  have ws: "window4 (state s')"
    using wn window4_new_episode [OF sp, of e'] by (simp add: s' episode_end_fields)
  have "list_all (\<lambda>tr. window4 (tr_state tr) \<and> window4 (tr_next_state tr))
          (contents (replay_memory s'))"
    unfolding s' using inv w wn
    by (simp add: frames_invariant_def list_all_contents_add episode_end_fields)
  with ws show ?thesis by (simp add: frames_invariant_def)
qed

lemma work_step_GLOBAL_STEP:
  assumes "work_step c a q t inp s = Inr s'"
    and "interact c q inp s = Inr (action, epsilon, reward, fin, next_state, e')"
  shows "GLOBAL_STEP s' = (if fin then GLOBAL_STEP s else GLOBAL_STEP s + 1)"
proof -
  from assms(1) obtain action1 epsilon1 reward1 fin1 next_state1 e1 mem1 batch tv new_q opt' where
    i: "interact c q inp s = Inr (action1, epsilon1, reward1, fin1, next_state1, e1)"
    and s': "s' = (if fin1
           then episode_end c
                  (s\<lparr>env := e1,
                      replay_memory := add (replay_memory s)
                         \<lparr>tr_state = state s, tr_action = action1, tr_reward = reward1,
                          tr_next_state = next_state1, tr_done = (if fin1 then 1 else 0)\<rparr>,
                      stats := \<lparr>episode_lengths = episode_t s,
                                episode_rewards = episode_rewards (stats s) + reward1\<rparr>,
                      mem := write_params q new_q mem1, optimizer := opt'\<rparr>)
           else s\<lparr>env := e1,
                   replay_memory := add (replay_memory s)
                      \<lparr>tr_state = state s, tr_action = action1, tr_reward = reward1,
                       tr_next_state = next_state1, tr_done = (if fin1 then 1 else 0)\<rparr>,
                   stats := \<lparr>episode_lengths = episode_t s,
                             episode_rewards = episode_rewards (stats s) + reward1\<rparr>,
                   mem := write_params q new_q mem1, optimizer := opt',
                   state := next_state1, GLOBAL_STEP := GLOBAL_STEP s + 1,
                   episode_t := episode_t s + 1\<rparr>)"
    by (rule work_step_cases)
  from i assms(2) have "fin1 = fin" by simp
  then show ?thesis by (simp add: s' episode_end_fields)
qed

lemma work_invariant:
  assumes sp: "\<forall>raw. length (state_processor c raw) = 1"
    and w: "work c a q t m0 opt0 e0 warm main = Inr s"
  shows "frames_invariant s"
proof -
  let ?s0 = "\<lparr>GLOBAL_STEP = 0, env = snd (new_episode c e0), state = fst (new_episode c e0),
                replay_memory = \<lparr>buffer_size = replay_memory_size a, contents = [], cursor = 0\<rparr>,
                stats = \<lparr>episode_lengths = 0, episode_rewards = 0\<rparr>,
                mem = m0, optimizer = opt0, i_episode = 0, episode_t = 0, yielded = []\<rparr>"
  have inv0: "frames_invariant ?s0"
    using window4_new_episode [OF sp, of e0] by (simp add: frames_invariant_def)
  from w obtain s1 where
    p: "run_steps (populate_step c q) (map warm [0..<replay_memory_init_size a]) ?s0 = Inr s1"
    and m: "run_steps (work_step c a q t) main
              (s1\<lparr>env := snd (new_episode c (env s1)), state := fst (new_episode c (env s1)),
                  stats := \<lparr>episode_lengths = 0, episode_rewards = 0\<rparr>,
                  episode_t := 0\<rparr>) = Inr s"
    by (cases "run_steps (populate_step c q) (map warm [0..<replay_memory_init_size a]) ?s0")
       (simp_all add: work_def Let_def case_prod_beta)
  have inv1: "frames_invariant s1"
    by (rule run_steps_invariant [where P = frames_invariant, OF _ inv0 p])
       (rule populate_step_invariant [OF sp])
  have inv2: "frames_invariant (s1\<lparr>env := snd (new_episode c (env s1)),
                  state := fst (new_episode c (env s1)),
                  stats := \<lparr>episode_lengths = 0, episode_rewards = 0\<rparr>,
                  episode_t := 0\<rparr>)"
    using inv1 window4_new_episode [OF sp, of "env s1"] by (simp add: frames_invariant_def)
  show ?thesis
    by (rule run_steps_invariant [where P = frames_invariant, OF _ inv2 m])
       (rule work_step_invariant [OF sp])
qed

lemma interact_append:
  assumes "interact c q inp s = Inr (action, epsilon, reward, fin, next_state, e')"
  shows "\<exists>a0 rest obs. action = a0 # rest
           \<and> env_step c (env s) a0 = ((obs, reward, fin), e')
           \<and> append_frame (state s) (state_processor c obs) = Inr next_state"
proof -
  from assms obtain a0 rest where
    pol: "policy c (map (mem s) q) (policy_draws inp) (state s) (GLOBAL_STEP s)
            = Inr (a0 # rest, epsilon)" and act: "action = a0 # rest"
    by (auto simp: interact_def split: sum.splits list.splits prod.splits)
  obtain obs r d e1 where st: "env_step c (env s) a0 = ((obs, r, d), e1)"
    by (metis prod.exhaust)
  from assms pol st have "append_frame (state s) (state_processor c obs) = Inr next_state"
    and "r = reward" and "d = fin" and "e1 = e'"
    by (auto simp: interact_def split: sum.splits)
  with act st show ?thesis by blast
qed

lemma interact_shift:
  assumes sp: "\<forall>raw. length (state_processor c raw) = 1"
    and w: "state s = [[g1, g2, g3, g4]]"
    and i: "interact c q inp s = Inr (action, epsilon, reward, fin, next_state, e')"
  shows "\<exists>a0 rest obs p. action = a0 # rest
           \<and> env_step c (env s) a0 = ((obs, reward, fin), e')
           \<and> state_processor c obs = [p]
           \<and> next_state = [[g2, g3, g4, p]]"
proof -
  from interact_append [OF i] obtain a0 rest obs where
    a: "action = a0 # rest" and e: "env_step c (env s) a0 = ((obs, reward, fin), e')"
    and ap: "append_frame (state s) (state_processor c obs) = Inr next_state"
    by (elim exE conjE)
  from sp have "length (state_processor c obs) = 1" by simp
  then obtain p where p: "state_processor c obs = [p]"
    by (cases "state_processor c obs") auto
  from ap have "next_state = [[g2, g3, g4, p]]"
    by (simp add: w p append_frame_shift)
  with a e p show ?thesis by blast
qed

lemma populate_step_state:
  assumes "populate_step c q inp s = Inr s'"
  shows "\<exists>action epsilon reward fin next_state e'.
           interact c q inp s = Inr (action, epsilon, reward, fin, next_state, e')
         \<and> state s' = (if fin then fst (new_episode c e') else next_state)
         \<and> replay_memory s' = add (replay_memory s)
               \<lparr>tr_state = state s, tr_action = action, tr_reward = reward,
                tr_next_state = next_state, tr_done = (if fin then 1 else 0)\<rparr>"
proof -
  from assms obtain action epsilon reward fin next_state e' where
    i: "interact c q inp s = Inr (action, epsilon, reward, fin, next_state, e')"
    and s': "s' = s\<lparr>env := snd (if fin then new_episode c e' else (next_state, e')),
            state := fst (if fin then new_episode c e' else (next_state, e')),
            replay_memory := add (replay_memory s)
               \<lparr>tr_state = state s, tr_action = action, tr_reward = reward,
                tr_next_state = next_state, tr_done = (if fin then 1 else 0)\<rparr>,
            GLOBAL_STEP := GLOBAL_STEP s + 1\<rparr>"
    by (rule populate_step_cases)
  have st: "state s' = (if fin then fst (new_episode c e') else next_state)"
    by (simp add: s')
  have rm: "replay_memory s' = add (replay_memory s)
               \<lparr>tr_state = state s, tr_action = action, tr_reward = reward,
                tr_next_state = next_state, tr_done = (if fin then 1 else 0)\<rparr>"
    by (simp add: s')
  from i st rm show ?thesis by blast
qed

lemma work_step_state:
  assumes "work_step c a q t inp s = Inr s'"
  shows "\<exists>action epsilon reward fin next_state e'.
           interact c q inp s = Inr (action, epsilon, reward, fin, next_state, e')
         \<and> state s' = (if fin then fst (new_episode c e') else next_state)
         \<and> replay_memory s' = add (replay_memory s)
               \<lparr>tr_state = state s, tr_action = action, tr_reward = reward,
                tr_next_state = next_state, tr_done = (if fin then 1 else 0)\<rparr>"
proof -
  from assms obtain action epsilon reward fin next_state e' mem1 batch tv new_q opt' where
    i: "interact c q inp s = Inr (action, epsilon, reward, fin, next_state, e')"
    and s': "s' = (if fin
           then episode_end c
                  (s\<lparr>env := e',
                      replay_memory := add (replay_memory s)
                         \<lparr>tr_state = state s, tr_action = action, tr_reward = reward,
                          tr_next_state = next_state, tr_done = (if fin then 1 else 0)\<rparr>,
                      stats := \<lparr>episode_lengths = episode_t s,
                                episode_rewards = episode_rewards (stats s) + reward\<rparr>,
                      mem := write_params q new_q mem1, optimizer := opt'\<rparr>)
           else s\<lparr>env := e',
                   replay_memory := add (replay_memory s)
                      \<lparr>tr_state = state s, tr_action = action, tr_reward = reward,
                       tr_next_state = next_state, tr_done = (if fin then 1 else 0)\<rparr>,
                   stats := \<lparr>episode_lengths = episode_t s,
                             episode_rewards = episode_rewards (stats s) + reward\<rparr>,
                   mem := write_params q new_q mem1, optimizer := opt',
                   state := next_state, GLOBAL_STEP := GLOBAL_STEP s + 1,
                   episode_t := episode_t s + 1\<rparr>)"
    by (rule work_step_cases)
  have st: "state s' = (if fin then fst (new_episode c e') else next_state)"
    by (simp add: s' episode_end_fields)
  have rm: "replay_memory s' = add (replay_memory s)
               \<lparr>tr_state = state s, tr_action = action, tr_reward = reward,
                tr_next_state = next_state, tr_done = (if fin then 1 else 0)\<rparr>"
    by (simp add: s' episode_end_fields)
  from i st rm show ?thesis by blast
qed

lemma sample_subset:
  assumes "sample buf n d = Inr batch"
  shows "set batch \<subseteq> set (contents buf)"
proof (cases "length (contents buf) < n")
  case True
  with assms show ?thesis by (simp add: sample_def)
next
  case False
  with assms have b: "batch = map (\<lambda>k. contents buf ! (d k mod length (contents buf))) [0..<n]"
    by (simp add: sample_def)
  show ?thesis
  proof
    fix x assume "x \<in> set batch"
    with b obtain k where k: "k < n" and x: "x = contents buf ! (d k mod length (contents buf))"
      by auto
    from k False have "0 < length (contents buf)" by linarith
    then have "d k mod length (contents buf) < length (contents buf)" by simp
    with x show "x \<in> set (contents buf)" by simp
  qed
qed

subsection \<open>A concrete run\<close>

lemma example_new_episode: "new_episode example_collab e = ([[[[0]], [[0]], [[0]], [[0]]]], e)"
  by (simp add: new_episode_def example_collab_def stack4_def numeral_eq_Suc)

lemma example_interact:
  "state s = [[[[0]], [[0]], [[0]], [[0]]]] \<Longrightarrow>
   interact example_collab q inp s
     = Inr ([0], 1 / 2, 1, True, [[[[0]], [[0]], [[0]], [[0]]]], Suc (env s))"
  by (simp add: interact_def example_collab_def append_frame_def cat_dim1_def)

lemma example_work_step:
  assumes "state s = [[[[0]], [[0]], [[0]], [[0]]]]" and "GLOBAL_STEP s = 0"
    and "mem s 0 = [1, 2]" and "length (mem s 1) = 2"
    and "length (contents (replay_memory s)) < buffer_size (replay_memory s)"
  shows "\<exists>s'. work_step example_collab example_args [0] [1] example_input s = Inr s'
           \<and> env s' = Suc (env s) \<and> GLOBAL_STEP s' = 0 \<and> state s' = state s
           \<and> mem s' 0 = [1, 2] \<and> mem s' 1 = [1, 2]
           \<and> contents (replay_memory s') = contents (replay_memory s)
                @ [\<lparr>tr_state = state s, tr_action = [0], tr_reward = 1,
                    tr_next_state = state s, tr_done = 1\<rparr>]
           \<and> buffer_size (replay_memory s') = buffer_size (replay_memory s)"
proof -
  let ?tr = "\<lparr>tr_state = state s, tr_action = [0], tr_reward = 1,
                    tr_next_state = state s, tr_done = 1\<rparr>"
  have i: "interact example_collab [0] example_input s
     = Inr ([0], 1 / 2, 1, True, [[[[0]], [[0]], [[0]], [[0]]]], Suc (env s))"
    by (rule example_interact [OF assms(1)])
  have sync: "load_state_dict (mem s) [1] (state_dict [0]) = Inr ((mem s)(1 := [1, 2]))"
    using assms(3,4) by (simp add: load_state_dict_def state_dict_def)
  have ad: "add (replay_memory s) ?tr = (replay_memory s)\<lparr>contents := contents (replay_memory s) @ [?tr]\<rparr>"
    using assms(5) by (simp add: add_def)
  have sm: "sample ((replay_memory s)\<lparr>contents := contents (replay_memory s) @ [?tr]\<rparr>) 1 (sample_draws example_input)
         = Inr [(contents (replay_memory s) @ [?tr]) ! 0]"
    by (simp add: sample_def example_input_def)
  show ?thesis
    using i sync ad sm assms(1,2,3)
    by (simp add: work_step_def example_args_def Let_def t_values_def max_dim1_def broadcast_def
        example_collab_def episode_end_def new_episode_def stack4_def numeral_eq_Suc)
qed

lemma example_args_fields:
  "replay_memory_size example_args = 10" "replay_memory_init_size example_args = 0"
  by (simp_all add: example_args_def)

lemma example_work_start:
  "replay_memory_init_size a = 0 \<Longrightarrow>
   work example_collab a [0] [1] example_mem () 0 example_warm main
     = run_steps (work_step example_collab a [0] [1]) main
         \<lparr>GLOBAL_STEP = 0, env = 0, state = [[[[0]], [[0]], [[0]], [[0]]]],
          replay_memory = \<lparr>buffer_size = replay_memory_size a, contents = [], cursor = 0\<rparr>,
          stats = \<lparr>episode_lengths = 0, episode_rewards = 0\<rparr>,
          mem = example_mem, optimizer = (), i_episode = 0, episode_t = 0, yielded = []\<rparr>"
  by (simp add: work_def example_new_episode)

lemma example_run_two_steps:
  "\<exists>s. work example_collab example_args [0] [1] example_mem () 0 example_warm
          [example_input, example_input] = Inr s
       \<and> env s = 2 \<and> GLOBAL_STEP s = 0"
proof -
  let ?w = "[[[[0]], [[0]], [[0]], [[0::real]]]]"
  let ?s0 = "\<lparr>GLOBAL_STEP = 0, env = 0::nat, state = ?w,
                replay_memory = \<lparr>buffer_size = 10, contents = [], cursor = 0\<rparr>,
                stats = \<lparr>episode_lengths = 0, episode_rewards = 0\<rparr>,
                mem = example_mem, optimizer = (), i_episode = 0, episode_t = 0, yielded = []\<rparr>"
  have start: "work example_collab example_args [0] [1] example_mem () 0 example_warm
          [example_input, example_input]
        = run_steps (work_step example_collab example_args [0] [1]) [example_input, example_input] ?s0"
    using example_work_start [of example_args "[example_input, example_input]"]
    by (simp add: example_args_fields del: run_steps.simps)
  have "\<exists>s1. work_step example_collab example_args [0] [1] example_input ?s0 = Inr s1
           \<and> env s1 = Suc (env ?s0) \<and> GLOBAL_STEP s1 = 0 \<and> state s1 = state ?s0
           \<and> mem s1 0 = [1, 2] \<and> mem s1 1 = [1, 2]
           \<and> contents (replay_memory s1) = contents (replay_memory ?s0)
                @ [\<lparr>tr_state = state ?s0, tr_action = [0], tr_reward = 1,
                    tr_next_state = state ?s0, tr_done = 1\<rparr>]
           \<and> buffer_size (replay_memory s1) = buffer_size (replay_memory ?s0)"
    by (rule example_work_step) (simp_all add: example_mem_def)
  then obtain s1 where s1: "work_step example_collab example_args [0] [1] example_input ?s0 = Inr s1"
    and f1: "env s1 = 1" "GLOBAL_STEP s1 = 0" "state s1 = ?w" "mem s1 0 = [1, 2]" "mem s1 1 = [1, 2]"
      "length (contents (replay_memory s1)) = 1" "buffer_size (replay_memory s1) = 10"
    by auto
  have "\<exists>s2. work_step example_collab example_args [0] [1] example_input s1 = Inr s2
           \<and> env s2 = Suc (env s1) \<and> GLOBAL_STEP s2 = 0 \<and> state s2 = state s1
           \<and> mem s2 0 = [1, 2] \<and> mem s2 1 = [1, 2]
           \<and> contents (replay_memory s2) = contents (replay_memory s1)
                @ [\<lparr>tr_state = state s1, tr_action = [0], tr_reward = 1,
                    tr_next_state = state s1, tr_done = 1\<rparr>]
           \<and> buffer_size (replay_memory s2) = buffer_size (replay_memory s1)"
    by (rule example_work_step) (use f1 in simp_all)
  then obtain s2 where s2: "work_step example_collab example_args [0] [1] example_input s1 = Inr s2"
    and f2: "env s2 = 2" "GLOBAL_STEP s2 = 0"
    using f1 by auto
  have "run_steps (work_step example_collab example_args [0] [1]) [example_input, example_input] ?s0
          = Inr s2"
    using s1 s2 by simp
  with start f2 show ?thesis by simp
qed

lemma example_run_underflow:
  "work example_collab (example_args\<lparr>batch_size := 2\<rparr>) [0] [1] example_mem () 0 example_warm
     [example_input] = Inl InsufficientDataError"
proof -
  let ?s0 = "\<lparr>GLOBAL_STEP = 0, env = 0::nat, state = [[[[0]], [[0]], [[0]], [[0::real]]]],
                replay_memory = \<lparr>buffer_size = 10, contents = [], cursor = 0\<rparr>,
                stats = \<lparr>episode_lengths = 0, episode_rewards = 0\<rparr>,
                mem = example_mem, optimizer = (), i_episode = 0, episode_t = 0, yielded = []\<rparr>"
  have start: "work example_collab (example_args\<lparr>batch_size := 2\<rparr>) [0] [1] example_mem () 0
          example_warm [example_input]
        = run_steps (work_step example_collab (example_args\<lparr>batch_size := 2\<rparr>) [0] [1])
            [example_input] ?s0"
    using example_work_start [of "example_args\<lparr>batch_size := 2\<rparr>" "[example_input]"]
    by (simp add: example_args_fields del: run_steps.simps)
  have i: "interact example_collab [0] example_input ?s0
     = Inr ([0], 1 / 2, 1, True, [[[[0]], [[0]], [[0]], [[0]]]], Suc (env ?s0))"
    by (rule example_interact) simp
  have "work_step example_collab (example_args\<lparr>batch_size := 2\<rparr>) [0] [1] example_input ?s0
          = Inl InsufficientDataError"
    using i by (simp add: work_step_def example_args_def load_state_dict_def state_dict_def
        example_mem_def add_def sample_def Let_def)
  with start show ?thesis by simp
qed

lemma counting_processor: "\<forall>raw. length (state_processor counting_collab raw) = 1"
  by (simp add: counting_collab_def)

lemma counting_new_episode:
  "new_episode counting_collab e
     = ([[[[real e]], [[real e]], [[real e]], [[real e]]]], e)"
  by (simp add: new_episode_def counting_collab_def stack4_single)

lemma counting_interact:
  "state s = [[g1, g2, g3, g4]] \<Longrightarrow>
   interact counting_collab q inp s
     = Inr ([0], 1 / 2, 1, Suc (env s) mod 3 = 0,
            [[g2, g3, g4, [[real (Suc (env s))]]]], Suc (env s))"
  by (simp add: interact_def counting_collab_def append_frame_def cat_dim1_def)

lemma counting_fields:
  "net_forward counting_collab params X = map (\<lambda>x. concat params) X"
  "gradient_step counting_collab opt params sb ab tv = (params, opt)"
  by (simp_all add: counting_collab_def)

lemma counting_populate_step:
  assumes "state s = [[g1, g2, g3, g4]]"
    and "length (contents (replay_memory s)) < buffer_size (replay_memory s)"
  shows "\<exists>s'. populate_step counting_collab [0] example_input s = Inr s'
           \<and> env s' = Suc (env s)
           \<and> state s' = (if Suc (env s) mod 3 = 0
                          then [[[[real (Suc (env s))]], [[real (Suc (env s))]],
                                 [[real (Suc (env s))]], [[real (Suc (env s))]]]]
                          else [[g2, g3, g4, [[real (Suc (env s))]]]])
           \<and> GLOBAL_STEP s' = GLOBAL_STEP s + 1
           \<and> mem s' = mem s
           \<and> contents (replay_memory s') = contents (replay_memory s)
                @ [\<lparr>tr_state = state s, tr_action = [0], tr_reward = 1,
                    tr_next_state = [[g2, g3, g4, [[real (Suc (env s))]]]],
                    tr_done = (if Suc (env s) mod 3 = 0 then 1 else 0)\<rparr>]
           \<and> buffer_size (replay_memory s') = buffer_size (replay_memory s)"
  using assms
  by (simp add: populate_step_def counting_interact [OF assms(1)] add_def counting_new_episode
      Let_def)

lemma counting_work_step:
  assumes "state s = [[g1, g2, g3, g4]]" and "GLOBAL_STEP s mod 20 \<noteq> 0"
    and "mem s 1 = [3, 4]"
    and "length (contents (replay_memory s)) < buffer_size (replay_memory s)"
  shows "\<exists>s'. work_step counting_collab counting_args [0] [1] example_input s = Inr s'
           \<and> env s' = Suc (env s)
           \<and> state s' = (if Suc (env s) mod 3 = 0
                          then [[[[real (Suc (env s))]], [[real (Suc (env s))]],
                                 [[real (Suc (env s))]], [[real (Suc (env s))]]]]
                          else [[g2, g3, g4, [[real (Suc (env s))]]]])
           \<and> GLOBAL_STEP s' = (if Suc (env s) mod 3 = 0 then GLOBAL_STEP s
                                 else GLOBAL_STEP s + 1)
           \<and> mem s' 1 = [3, 4]
           \<and> contents (replay_memory s') = contents (replay_memory s)
                @ [\<lparr>tr_state = state s, tr_action = [0], tr_reward = 1,
                    tr_next_state = [[g2, g3, g4, [[real (Suc (env s))]]]],
                    tr_done = (if Suc (env s) mod 3 = 0 then 1 else 0)\<rparr>]
           \<and> buffer_size (replay_memory s') = buffer_size (replay_memory s)"
proof -
  let ?x = "[[real (Suc (env s))]]"
  let ?tr = "\<lparr>tr_state = state s, tr_action = [0], tr_reward = 1,
                    tr_next_state = [[g2, g3, g4, ?x]],
                    tr_done = (if Suc (env s) mod 3 = 0 then 1 else 0)\<rparr>"
  have i: "interact counting_collab [0] example_input s
     = Inr ([0], 1 / 2, 1, Suc (env s) mod 3 = 0, [[g2, g3, g4, ?x]], Suc (env s))"
    by (rule counting_interact [OF assms(1)])
  have ad: "add (replay_memory s) ?tr
              = (replay_memory s)\<lparr>contents := contents (replay_memory s) @ [?tr]\<rparr>"
    using assms(4) by (simp add: add_def)
  have sm: "sample ((replay_memory s)\<lparr>contents := contents (replay_memory s) @ [?tr]\<rparr>) 1
              (sample_draws example_input)
         = Inr [(contents (replay_memory s) @ [?tr]) ! 0]"
    by (simp add: sample_def example_input_def)
  show ?thesis
    using i ad sm assms(1,2,3)
    by (simp add: work_step_def counting_args_def Let_def t_values_def max_dim1_def
        broadcast_def counting_fields episode_end_def counting_new_episode)
qed

lemma counting_run:
  "\<exists>s. work counting_collab counting_args [0] [1] example_mem () 0 example_warm
          [example_input, example_input] = Inr s
       \<and> env s = 4 \<and> GLOBAL_STEP s = 3
       \<and> state s = [[[[3]], [[3]], [[3]], [[4]]]]
       \<and> map tr_state (contents (replay_memory s))
           = [[[[[0]], [[0]], [[0]], [[0]]]], [[[[0]], [[0]], [[0]], [[1]]]],
              [[[[2]], [[2]], [[2]], [[2]]]], [[[[3]], [[3]], [[3]], [[3]]]]]
       \<and> map tr_next_state (contents (replay_memory s))
           = [[[[[0]], [[0]], [[0]], [[1]]]], [[[[0]], [[0]], [[1]], [[2]]]],
              [[[[2]], [[2]], [[2]], [[3]]]], [[[[3]], [[3]], [[3]], [[4]]]]]"
proof -
  let ?s0 = "\<lparr>GLOBAL_STEP = 0, env = 0 :: nat, state = [[[[0]], [[0]], [[0]], [[0 :: real]]]],
               replay_memory = \<lparr>buffer_size = 10, contents = [], cursor = 0\<rparr>,
               stats = \<lparr>episode_lengths = 0, episode_rewards = 0\<rparr>,
               mem = example_mem, optimizer = (), i_episode = 0, episode_t = 0, yielded = []\<rparr>"
  have a0: "state ?s0 = [[[[0]], [[0]], [[0]], [[0]]]]" by simp
  have b0: "length (contents (replay_memory ?s0)) < buffer_size (replay_memory ?s0)" by simp
  from counting_populate_step [OF a0 b0] obtain s1 where
    s1: "populate_step counting_collab [0] example_input ?s0 = Inr s1"
    and e1: "env s1 = 1" and g1: "GLOBAL_STEP s1 = 1" and m1: "mem s1 = example_mem"
    and a1: "state s1 = [[[[0]], [[0]], [[0]], [[1]]]]"
    and c1: "map tr_state (contents (replay_memory s1)) = [[[[[0]], [[0]], [[0]], [[0]]]]]"
    and n1: "map tr_next_state (contents (replay_memory s1)) = [[[[[0]], [[0]], [[0]], [[1]]]]]"
    and z1: "buffer_size (replay_memory s1) = 10"
    by auto
  from c1 have l1: "length (contents (replay_memory s1)) = 1"
    by (metis length_map length_Cons list.size(3) One_nat_def)
  have b1: "length (contents (replay_memory s1)) < buffer_size (replay_memory s1)"
    using l1 z1 by simp
  from counting_populate_step [OF a1 b1] obtain s2 where
    s2: "populate_step counting_collab [0] example_input s1 = Inr s2"
    and e2: "env s2 = 2" and g2: "GLOBAL_STEP s2 = 2" and m2: "mem s2 = example_mem"
    and c2: "map tr_state (contents (replay_memory s2))
               = [[[[[0]], [[0]], [[0]], [[0]]]], [[[[0]], [[0]], [[0]], [[1]]]]]"
    and n2: "map tr_next_state (contents (replay_memory s2))
               = [[[[[0]], [[0]], [[0]], [[1]]]], [[[[0]], [[0]], [[1]], [[2]]]]]"
    and z2: "buffer_size (replay_memory s2) = 10"
    using e1 g1 m1 a1 c1 n1 z1 by auto
  let ?s3 = "s2\<lparr>env := 2, state := [[[[2]], [[2]], [[2]], [[2 :: real]]]],
               stats := \<lparr>episode_lengths = 0, episode_rewards = 0\<rparr>, episode_t := 0\<rparr>"
  have warm: "run_steps (populate_step counting_collab [0])
                (map example_warm [0..<replay_memory_init_size counting_args]) ?s0 = Inr s2"
  proof -
    have "map example_warm [0..<replay_memory_init_size counting_args]
            = [example_input, example_input]"
      by (simp add: counting_args_def example_warm_def upt_rec numeral_2_eq_2)
    with s1 s2 show ?thesis by simp
  qed
  have start: "work counting_collab counting_args [0] [1] example_mem () 0 example_warm
                 [example_input, example_input]
               = run_steps (work_step counting_collab counting_args [0] [1])
                   [example_input, example_input] ?s3"
    using warm e2
    by (simp add: work_def counting_new_episode counting_args_def del: run_steps.simps)
  have a3: "state ?s3 = [[[[2]], [[2]], [[2]], [[2]]]]" by simp
  have g3: "GLOBAL_STEP ?s3 mod 20 \<noteq> 0" using g2 by simp
  have m3: "mem ?s3 1 = [3, 4]" using m2 by (simp add: example_mem_def)
  from c2 have l2: "length (contents (replay_memory s2)) = 2"
    by (metis length_map length_Cons list.size(3) One_nat_def Suc_1)
  have b3: "length (contents (replay_memory ?s3)) < buffer_size (replay_memory ?s3)"
    using l2 z2 by simp
  from counting_work_step [OF a3 g3 m3 b3] obtain s4 where
    s4: "work_step counting_collab counting_args [0] [1] example_input ?s3 = Inr s4"
    and e4: "env s4 = 3" and g4: "GLOBAL_STEP s4 = 2" and m4: "mem s4 1 = [3, 4]"
    and a4: "state s4 = [[[[3]], [[3]], [[3]], [[3]]]]"
    and c4: "map tr_state (contents (replay_memory s4))
               = [[[[[0]], [[0]], [[0]], [[0]]]], [[[[0]], [[0]], [[0]], [[1]]]],
                  [[[[2]], [[2]], [[2]], [[2]]]]]"
    and n4: "map tr_next_state (contents (replay_memory s4))
               = [[[[[0]], [[0]], [[0]], [[1]]]], [[[[0]], [[0]], [[1]], [[2]]]],
                  [[[[2]], [[2]], [[2]], [[3]]]]]"
    and z4: "buffer_size (replay_memory s4) = 10"
    using e2 g2 c2 n2 z2 by auto
  have g4': "GLOBAL_STEP s4 mod 20 \<noteq> 0" using g4 by simp
  from c4 have l4: "length (contents (replay_memory s4)) = 3"
    by (metis length_map length_Cons list.size(3) One_nat_def Suc_1 numeral_3_eq_3)
  have b4: "length (contents (replay_memory s4)) < buffer_size (replay_memory s4)"
    using l4 z4 by simp
  from counting_work_step [OF a4 g4' m4 b4] obtain s5 where
    s5: "work_step counting_collab counting_args [0] [1] example_input s4 = Inr s5"
    and e5: "env s5 = 4" and g5: "GLOBAL_STEP s5 = 3"
    and a5: "state s5 = [[[[3]], [[3]], [[3]], [[4]]]]"
    and c5: "map tr_state (contents (replay_memory s5))
               = [[[[[0]], [[0]], [[0]], [[0]]]], [[[[0]], [[0]], [[0]], [[1]]]],
                  [[[[2]], [[2]], [[2]], [[2]]]], [[[[3]], [[3]], [[3]], [[3]]]]]"
    and n5: "map tr_next_state (contents (replay_memory s5))
               = [[[[[0]], [[0]], [[0]], [[1]]]], [[[[0]], [[0]], [[1]], [[2]]]],
                  [[[[2]], [[2]], [[2]], [[3]]]], [[[[3]], [[3]], [[3]], [[4]]]]]"
    using e4 g4 a4 c4 n4 by auto
  have "run_steps (work_step counting_collab counting_args [0] [1])
          [example_input, example_input] ?s3 = Inr s5"
    using s4 s5 by simp
  with start have w: "work counting_collab counting_args [0] [1] example_mem () 0 example_warm
          [example_input, example_input] = Inr s5" by simp
  show ?thesis
    apply (rule exI [of _ s5])
    apply (intro conjI)
         apply (rule w)
        apply (rule e5)
       apply (rule g5)
      apply (rule a5)
     apply (rule c5)
    apply (rule n5)
    done
qed

text \<open>
  C7. With a preprocessor that returns single-channel frames, the window is a tensor with
  exactly four frames throughout \<^verbatim>\<open>work\<close>. An episode starts with the first preprocessed
  frame repeated four times. Appending a frame to the window \<open>f1, f2, f3, f4\<close> gives
  \<open>f2, f3, f4, p\<close>, and this is what every iteration of either loop does: for the window
  \<open>g1, g2, g3, g4\<close> the next state is \<open>g2, g3, g4, p\<close>, where \<open>p\<close> is the preprocessed
  observation of the iteration's \<^verbatim>\<open>env.step\<close>; the transition put into the replay memory holds
  the window before and this next state, and the loop continues from the next state, or
  from a fresh window when the episode is over. Every iteration keeps the invariant that
  the current state and the states of all transitions in the replay memory have one
  channel of four frames; hence the state after any run of \<^verbatim>\<open>work\<close> satisfies it, and so
  does every sampled batch.
\<close>

theorem stacked_frame_window:
  assumes "\<forall>raw. length (state_processor c raw) = 1"
  shows "window4 (fst (new_episode c e))
       \<and> fst (new_episode c e) = stack4 (state_processor c (fst (env_reset c e)))
       \<and> stack4 [f] = [[f, f, f, f]]
       \<and> append_frame [[f1, f2, f3, f4]] [p] = Inr [[f2, f3, f4, p]]
       \<and> (frames_invariant s \<longrightarrow> populate_step c q inp s = Inr s' \<longrightarrow> frames_invariant s')
       \<and> (frames_invariant s \<longrightarrow> work_step c a q t inp s = Inr s' \<longrightarrow> frames_invariant s')
       \<and> (work c a q t m0 opt0 e0 warm main = Inr s'' \<longrightarrow> frames_invariant s'')
       \<and> (frames_invariant s \<longrightarrow> sample (replay_memory s) n d = Inr batch \<longrightarrow>
            list_all (\<lambda>tr. window4 (tr_state tr) \<and> window4 (tr_next_state tr)) batch)
       \<and> (state s = [[g1, g2, g3, g4]] \<longrightarrow>
            interact c q inp s = Inr (action, epsilon, reward, fin, next_state, e') \<longrightarrow>
            (\<exists>a0 rest obs p. action = a0 # rest
               \<and> env_step c (env s) a0 = ((obs, reward, fin), e')
               \<and> state_processor c obs = [p]
               \<and> next_state = [[g2, g3, g4, p]]))
       \<and> (populate_step c q inp s = Inr s' \<longrightarrow>
            (\<exists>action epsilon reward fin next_state e'.
               interact c q inp s = Inr (action, epsilon, reward, fin, next_state, e')
             \<and> state s' = (if fin then fst (new_episode c e') else next_state)
             \<and> replay_memory s' = add (replay_memory s)
                   \<lparr>tr_state = state s, tr_action = action, tr_reward = reward,
                    tr_next_state = next_state, tr_done = (if fin then 1 else 0)\<rparr>))
       \<and> (work_step c a q t inp s = Inr s' \<longrightarrow>
            (\<exists>action epsilon reward fin next_state e'.
               interact c q inp s = Inr (action, epsilon, reward, fin, next_state, e')
             \<and> state s' = (if fin then fst (new_episode c e') else next_state)
             \<and> replay_memory s' = add (replay_memory s)
                   \<lparr>tr_state = state s, tr_action = action, tr_reward = reward,
                    tr_next_state = next_state, tr_done = (if fin then 1 else 0)\<rparr>))"
proof (intro conjI impI)
  show "window4 (fst (new_episode c e))" by (rule window4_new_episode [OF assms])
  show "fst (new_episode c e) = stack4 (state_processor c (fst (env_reset c e)))"
    by (simp add: new_episode_def case_prod_beta)
  show "stack4 [f] = [[f, f, f, f]]" by (rule stack4_single)
  show "append_frame [[f1, f2, f3, f4]] [p] = Inr [[f2, f3, f4, p]]" by (rule append_frame_shift)
next
  assume "frames_invariant s" and "populate_step c q inp s = Inr s'"
  then show "frames_invariant s'" by (rule populate_step_invariant [OF assms])
next
  assume "frames_invariant s" and "work_step c a q t inp s = Inr s'"
  then show "frames_invariant s'" by (rule work_step_invariant [OF assms])
next
  assume "work c a q t m0 opt0 e0 warm main = Inr s''"
  then show "frames_invariant s''" by (rule work_invariant [OF assms])
next
  assume inv: "frames_invariant s" and smp: "sample (replay_memory s) n d = Inr batch"
  from sample_subset [OF smp] inv
  show "list_all (\<lambda>tr. window4 (tr_state tr) \<and> window4 (tr_next_state tr)) batch"
    by (auto simp: frames_invariant_def list_all_iff)
next
  assume "state s = [[g1, g2, g3, g4]]"
    and "interact c q inp s = Inr (action, epsilon, reward, fin, next_state, e')"
  with assms show "\<exists>a0 rest obs p. action = a0 # rest
               \<and> env_step c (env s) a0 = ((obs, reward, fin), e')
               \<and> state_processor c obs = [p]
               \<and> next_state = [[g2, g3, g4, p]]"
    by (rule interact_shift)
next
  assume "populate_step c q inp s = Inr s'"
  then show "\<exists>action epsilon reward fin next_state e'.
               interact c q inp s = Inr (action, epsilon, reward, fin, next_state, e')
             \<and> state s' = (if fin then fst (new_episode c e') else next_state)
             \<and> replay_memory s' = add (replay_memory s)
                   \<lparr>tr_state = state s, tr_action = action, tr_reward = reward,
                    tr_next_state = next_state, tr_done = (if fin then 1 else 0)\<rparr>"
    by (rule populate_step_state)
next
  assume "work_step c a q t inp s = Inr s'"
  then show "\<exists>action epsilon reward fin next_state e'.
               interact c q inp s = Inr (action, epsilon, reward, fin, next_state, e')
             \<and> state s' = (if fin then fst (new_episode c e') else next_state)
             \<and> replay_memory s' = add (replay_memory s)
                   \<lparr>tr_state = state s, tr_action = action, tr_reward = reward,
                    tr_next_state = next_state, tr_done = (if fin then 1 else 0)\<rparr>"
    by (rule work_step_state)
qed

text \<open>
  The theorem on the counting set-up: two iterations fill the replay memory, the first
  iteration of the main loop ends an episode and the second does not. The frames are
  the numbers of the steps that showed them, so the windows show which frame was dropped
  and which appended.
\<close>

theorem stacked_frame_window_witness:
  "(\<exists>s. work counting_collab counting_args [0] [1] example_mem () 0 example_warm
           [example_input, example_input] = Inr s
        \<and> state s = [[[[3]], [[3]], [[3]], [[4]]]]
        \<and> map tr_state (contents (replay_memory s))
            = [[[[[0]], [[0]], [[0]], [[0]]]], [[[[0]], [[0]], [[0]], [[1]]]],
               [[[[2]], [[2]], [[2]], [[2]]]], [[[[3]], [[3]], [[3]], [[3]]]]]
        \<and> map tr_next_state (contents (replay_memory s))
            = [[[[[0]], [[0]], [[0]], [[1]]]], [[[[0]], [[0]], [[1]], [[2]]]],
               [[[[2]], [[2]], [[2]], [[3]]]], [[[[3]], [[3]], [[3]], [[4]]]]]
        \<and> frames_invariant s)
   \<and> (\<exists>a0 rest obs p. [0 :: int] = a0 # rest
        \<and> env_step counting_collab (2 :: nat) a0 = ((obs, 1, True), 3)
        \<and> state_processor counting_collab obs = [p]
        \<and> [[[[7]], [[1]], [[2]], [[3 :: real]]]] = [[[[7]], [[1]], [[2]], p]])"
proof -
  have h: "\<forall>raw. length (state_processor counting_collab raw) = 1"
    by (rule counting_processor)
  from counting_run obtain s where
    w: "work counting_collab counting_args [0] [1] example_mem () 0 example_warm
          [example_input, example_input] = Inr s"
    and st: "state s = [[[[3]], [[3]], [[3]], [[4]]]]"
    and c: "map tr_state (contents (replay_memory s))
            = [[[[[0]], [[0]], [[0]], [[0]]]], [[[[0]], [[0]], [[0]], [[1]]]],
               [[[[2]], [[2]], [[2]], [[2]]]], [[[[3]], [[3]], [[3]], [[3]]]]]"
    and n: "map tr_next_state (contents (replay_memory s))
            = [[[[[0]], [[0]], [[0]], [[1]]]], [[[[0]], [[0]], [[1]], [[2]]]],
               [[[[2]], [[2]], [[2]], [[3]]]], [[[[3]], [[3]], [[3]], [[4]]]]]"
    by (elim exE conjE)
  let ?sc = "\<lparr>GLOBAL_STEP = 5, env = 2 :: nat,
               state = [[[[9]], [[7]], [[1]], [[2 :: real]]]],
               replay_memory = \<lparr>buffer_size = 10, contents = [], cursor = 0\<rparr>,
               stats = \<lparr>episode_lengths = 0, episode_rewards = 0\<rparr>,
               mem = example_mem, optimizer = (), i_episode = 0, episode_t = 0, yielded = []\<rparr>"
  note inst = stacked_frame_window [OF h, where s'' = s and a = counting_args
      and q = "[0]" and t = "[1]" and ?m0.0 = example_mem and ?opt0.0 = "()" and ?e0.0 = 0
      and warm = example_warm and main = "[example_input, example_input]"
      and s = ?sc and inp = example_input
      and ?g1.0 = "[[9]]" and ?g2.0 = "[[7]]" and ?g3.0 = "[[1]]" and ?g4.0 = "[[2]]"
      and action = "[0]" and epsilon = "1 / 2" and reward = 1 and fin = True
      and next_state = "[[[[7]], [[1]], [[2]], [[3]]]]" and e' = 3]
  have "work counting_collab counting_args [0] [1] example_mem () 0 example_warm
          [example_input, example_input] = Inr s \<longrightarrow> frames_invariant s"
    by (rule inst [THEN conjunct2, THEN conjunct2, THEN conjunct2, THEN conjunct2,
          THEN conjunct2, THEN conjunct2, THEN conjunct1])
  with w have inv: "frames_invariant s" by simp
  have sc: "state ?sc = [[[[9]], [[7]], [[1]], [[2]]]]" by simp
  have i: "interact counting_collab [0] example_input ?sc
             = Inr ([0], 1 / 2, 1, True, [[[[7]], [[1]], [[2]], [[3]]]], 3)"
    using counting_interact [OF sc, of "[0]" example_input] by simp
  have "state ?sc = [[[[9]], [[7]], [[1]], [[2]]]] \<longrightarrow>
        interact counting_collab [0] example_input ?sc
             = Inr ([0], 1 / 2, 1, True, [[[[7]], [[1]], [[2]], [[3]]]], 3) \<longrightarrow>
        (\<exists>a0 rest obs p. [0] = a0 # rest
           \<and> env_step counting_collab (env ?sc) a0 = ((obs, 1, True), 3)
           \<and> state_processor counting_collab obs = [p]
           \<and> [[[[7]], [[1]], [[2]], [[3]]]] = [[[[7]], [[1]], [[2]], p]])"
    by (rule inst [THEN conjunct2, THEN conjunct2, THEN conjunct2, THEN conjunct2,
          THEN conjunct2, THEN conjunct2, THEN conjunct2, THEN conjunct2, THEN conjunct1])
  with sc i have sh: "\<exists>a0 rest obs p. [0 :: int] = a0 # rest
        \<and> env_step counting_collab (2 :: nat) a0 = ((obs, 1, True), 3)
        \<and> state_processor counting_collab obs = [p]
        \<and> [[[[7]], [[1]], [[2]], [[3 :: real]]]] = [[[[7]], [[1]], [[2]], p]]"
    by simp
  have run: "\<exists>s. work counting_collab counting_args [0] [1] example_mem () 0 example_warm
           [example_input, example_input] = Inr s
        \<and> state s = [[[[3]], [[3]], [[3]], [[4]]]]
        \<and> map tr_state (contents (replay_memory s))
            = [[[[[0]], [[0]], [[0]], [[0]]]], [[[[0]], [[0]], [[0]], [[1]]]],
               [[[[2]], [[2]], [[2]], [[2]]]], [[[[3]], [[3]], [[3]], [[3]]]]]
        \<and> map tr_next_state (contents (replay_memory s))
            = [[[[[0]], [[0]], [[0]], [[1]]]], [[[[0]], [[0]], [[1]], [[2]]]],
               [[[[2]], [[2]], [[2]], [[3]]]], [[[[3]], [[3]], [[3]], [[4]]]]]
        \<and> frames_invariant s"
    apply (rule exI [of _ s])
    apply (intro conjI)
        apply (rule w)
       apply (rule st)
      apply (rule c)
     apply (rule n)
    apply (rule inv)
    done
  from run sh show ?thesis by (rule conjI)
qed

subsection \<open>The global step counter\<close>

text \<open>
  In the loop that fills the replay memory every iteration increments \<^verbatim>\<open>GLOBAL_STEP\<close>;
  in the main loop \<^verbatim>\<open>if done: break\<close> comes before \<^verbatim>\<open>GLOBAL_STEP += 1\<close>, so an iteration that
  ends its episode leaves the counter as it was.
\<close>

lemma global_step_per_iteration:
  "(populate_step c q inp s = Inr s' \<longrightarrow> GLOBAL_STEP s' = GLOBAL_STEP s + 1)
   \<and> (work_step c a q t inp s = Inr s' \<longrightarrow>
        interact c q inp s = Inr (action, epsilon, reward, fin, next_state, e') \<longrightarrow>
        GLOBAL_STEP s' = (if fin then GLOBAL_STEP s else GLOBAL_STEP s + 1))"
proof (intro conjI impI)
  assume "populate_step c q inp s = Inr s'"
  then show "GLOBAL_STEP s' = GLOBAL_STEP s + 1" by (rule populate_step_GLOBAL_STEP)
next
  assume "work_step c a q t inp s = Inr s'"
    and "interact c q inp s = Inr (action, epsilon, reward, fin, next_state, e')"
  then show "GLOBAL_STEP s' = (if fin then GLOBAL_STEP s else GLOBAL_STEP s + 1)"
    by (rule work_step_GLOBAL_STEP)
qed

text \<open>
  C8 (the code differs). In the concrete run above the environment ends every episode at
  its first step. After two iterations of the main loop \<^verbatim>\<open>env.step\<close> has been called twice
  (the state of the environment counts the calls) and \<^verbatim>\<open>GLOBAL_STEP\<close> is still 0: the counter
  is not incremented by an interaction that ends an episode.
\<close>

theorem global_step_after_terminal_step:
  "\<exists>s. work example_collab example_args [0] [1] example_mem () 0 example_warm
          [example_input, example_input] = Inr s
       \<and> env s = 2 \<and> GLOBAL_STEP s = 0"
  by (rule example_run_two_steps)

subsection \<open>Sampling from a buffer that is too small\<close>

lemma sample_insufficient_iff:
  "sample buf n d = Inl InsufficientDataError \<longleftrightarrow> length (contents buf) < n"
  by (simp add: sample_def)

text \<open>
  C9 as the code has it. \<^verbatim>\<open>sample\<close> fails with \<^verbatim>\<open>InsufficientDataError\<close> exactly when the
  buffer holds fewer than \<^verbatim>\<open>batch_size\<close> transitions. \<^verbatim>\<open>work\<close> calls it in every iteration of
  the main loop without a guard and without a handler: when the buffer, after the insertion
  of the current transition, is still too small, the iteration ends with that exception,
  and so does the loop, whatever iterations would follow.
\<close>

theorem insufficient_data_propagates:
  assumes "interact c q inp s = Inr (action, epsilon, reward, fin, next_state, e')"
    and "update_target_estimator_every a \<noteq> 0"
    and "(if GLOBAL_STEP s mod update_target_estimator_every a = 0
          then load_state_dict (mem s) t (state_dict q) else Inr (mem s)) = Inr mem1"
    and "length (contents (add (replay_memory s)
             \<lparr>tr_state = state s, tr_action = action, tr_reward = reward,
              tr_next_state = next_state, tr_done = (if fin then 1 else 0)\<rparr>)) < batch_size a"
  shows "(\<forall>buf n d. (sample buf n d = Inl InsufficientDataError) = (length (contents buf) < n))
       \<and> work_step c a q t inp s = Inl InsufficientDataError
       \<and> run_steps (work_step c a q t) (inp # rest) s = Inl InsufficientDataError"
proof -
  let ?rm = "add (replay_memory s)
             \<lparr>tr_state = state s, tr_action = action, tr_reward = reward,
              tr_next_state = next_state, tr_done = (if fin then 1 else 0)\<rparr>"
  from assms(4) have smp: "sample ?rm (batch_size a) (sample_draws inp) = Inl InsufficientDataError"
    by (simp add: sample_def)
  have ws: "work_step c a q t inp s = Inl InsufficientDataError"
  proof (cases "GLOBAL_STEP s mod update_target_estimator_every a = 0")
    case True
    with assms(3) have "load_state_dict (mem s) t (state_dict q) = Inr mem1" by simp
    with assms(1,2) True smp show ?thesis by (simp add: work_step_def Let_def)
  next
    case False
    with assms(1,2) smp show ?thesis by (simp add: work_step_def Let_def)
  qed
  then have "run_steps (work_step c a q t) (inp # rest) s = Inl InsufficientDataError" by simp
  with ws sample_insufficient_iff show ?thesis by blast
qed

theorem insufficient_data_propagates_witness:
  "work_step example_collab (example_args\<lparr>batch_size := 2\<rparr>) [0] [1] example_input
     \<lparr>GLOBAL_STEP = 7, env = 0, state = [[[[0]], [[0]], [[0]], [[0]]]],
      replay_memory = \<lparr>buffer_size = 10, contents = [], cursor = 0\<rparr>,
      stats = \<lparr>episode_lengths = 0, episode_rewards = 0\<rparr>,
      mem = example_mem, optimizer = (), i_episode = 0, episode_t = 0, yielded = []\<rparr>
   = Inl InsufficientDataError"
proof -
  let ?s = "\<lparr>GLOBAL_STEP = 7, env = 0 :: nat, state = [[[[0]], [[0]], [[0]], [[0 :: real]]]],
      replay_memory = \<lparr>buffer_size = 10, contents = [], cursor = 0\<rparr>,
      stats = \<lparr>episode_lengths = 0, episode_rewards = 0\<rparr>,
      mem = example_mem, optimizer = (), i_episode = 0, episode_t = 0, yielded = []\<rparr>"
  let ?a = "example_args\<lparr>batch_size := 2\<rparr>"
  have h1: "interact example_collab [0] example_input ?s
     = Inr ([0], 1 / 2, 1, True, [[[[0]], [[0]], [[0]], [[0]]]], Suc (env ?s))"
    by (rule example_interact) simp
  have h2: "update_target_estimator_every ?a \<noteq> 0" by (simp add: example_args_def)
  have h3: "(if GLOBAL_STEP ?s mod update_target_estimator_every ?a = 0
          then load_state_dict (mem ?s) [1] (state_dict [0]) else Inr (mem ?s)) = Inr example_mem"
    by (simp add: example_args_def)
  have h4: "length (contents (add (replay_memory ?s)
             \<lparr>tr_state = state ?s, tr_action = [0], tr_reward = 1,
              tr_next_state = [[[[0]], [[0]], [[0]], [[0]]]],
              tr_done = (if True then 1 else 0)\<rparr>)) < batch_size ?a"
    by (simp add: add_def example_args_def)
  from insufficient_data_propagates [OF h1 h2 h3 h4] show ?thesis by blast
qed

text \<open>
  The claim as stated fails: with a batch size of 2 and an empty replay memory the first
  iteration of the main loop does not skip the update and go on; \<^verbatim>\<open>work\<close> ends with the
  exception.
\<close>

theorem insufficient_data_aborts:
  "work example_collab (example_args\<lparr>batch_size := 2\<rparr>) [0] [1] example_mem () 0 example_warm
     [example_input] = Inl InsufficientDataError"
  by (rule example_run_underflow)

subsection \<open>Synchronising the target network\<close>

lemma copy_params_other: "a \<notin> set ds \<Longrightarrow> copy_params ds ss m a = m a"
  by (induction ds ss m rule: copy_params.induct) simp_all

lemma write_params_other: "a \<notin> set ps \<Longrightarrow> write_params ps vs m a = m a"
  by (induction ps vs m rule: write_params.induct) simp_all

lemma map_copy_params_disjoint:
  "set ds \<inter> set xs = {} \<Longrightarrow> map (copy_params ds ss m) xs = map m xs"
proof (rule map_cong [OF refl])
  fix x assume "set ds \<inter> set xs = {}" and "x \<in> set xs"
  then have "x \<notin> set ds" by blast
  then show "copy_params ds ss m x = m x" by (rule copy_params_other)
qed

lemma map_write_params_disjoint:
  "set ps \<inter> set xs = {} \<Longrightarrow> map (write_params ps vs m) xs = map m xs"
proof (rule map_cong [OF refl])
  fix x assume "set ps \<inter> set xs = {}" and "x \<in> set xs"
  then have "x \<notin> set ps" by blast
  then show "write_params ps vs m x = m x" by (rule write_params_other)
qed

lemma map_copy_params_dst:
  "distinct ds \<Longrightarrow> set ds \<inter> set ss = {} \<Longrightarrow> length ds = length ss
     \<Longrightarrow> map (copy_params ds ss m) ds = map m ss"
proof (induction ds ss m rule: copy_params.induct)
  case (1 d ds s ss m)
  let ?m = "m(d := m s)"
  from "1.prems" have d: "d \<notin> set ds" and dss: "d \<notin> set (s # ss)"
    and dist: "distinct ds" and disj: "set ds \<inter> set ss = {}" and len: "length ds = length ss"
    by auto
  have hd: "copy_params ds ss ?m d = m s" using d by (simp add: copy_params_other)
  have "map (copy_params ds ss ?m) ds = map ?m ss" by (rule "1.IH" [OF dist disj len])
  also have "\<dots> = map m ss" using dss by auto
  finally show ?case using hd by simp
qed simp_all

lemma map_write_params_dst:
  "distinct ps \<Longrightarrow> length vs = length ps \<Longrightarrow> map (write_params ps vs m) ps = vs"
proof (induction ps vs m rule: write_params.induct)
  case (1 p ps v vs m)
  from "1.prems" have p: "p \<notin> set ps" and dist: "distinct ps" and len: "length vs = length ps"
    by auto
  have "write_params ps vs (m(p := v)) p = v" using p by (simp add: write_params_other)
  moreover have "map (write_params ps vs (m(p := v))) ps = vs" by (rule "1.IH" [OF dist len])
  ultimately show ?case by simp
qed simp_all

lemma load_state_dict_copy:
  assumes "distinct (q @ t)" and "list_all2 (\<lambda>d s. length (m d) = length (m s)) t q"
  shows "\<exists>m'. load_state_dict m t (state_dict q) = Inr m'
           \<and> map m' t = map m q \<and> map m' q = map m q"
proof -
  from assms(1) have dt: "distinct t" and disj: "set t \<inter> set q = {}" by auto
  from assms(2) have len: "length t = length q" by (rule list_all2_lengthD)
  have r: "load_state_dict m t (state_dict q) = Inr (copy_params t q m)"
    using assms(2) by (simp add: load_state_dict_def state_dict_def)
  have a: "map (copy_params t q m) t = map m q" by (rule map_copy_params_dst [OF dt disj len])
  have b: "map (copy_params t q m) q = map m q" by (rule map_copy_params_disjoint [OF disj])
  from r a b show ?thesis by simp
qed

lemma work_step_target_params:
  assumes "distinct (q @ t)" and "work_step c a q t inp s = Inr s'"
  shows "map (mem s') t = (if GLOBAL_STEP s mod update_target_estimator_every a = 0
                           then map (mem s) q else map (mem s) t)"
proof -
  from assms(1) have disj: "set q \<inter> set t = {}" by auto
  from assms(2) obtain action epsilon reward fin next_state e' mem1 batch tv new_q opt' where
    sync: "(if GLOBAL_STEP s mod update_target_estimator_every a = 0
      then load_state_dict (mem s) t (state_dict q) else Inr (mem s)) = Inr mem1"
    and s': "s' = (if fin
           then episode_end c
                  (s\<lparr>env := e',
                      replay_memory := add (replay_memory s)
                         \<lparr>tr_state = state s, tr_action = action, tr_reward = reward,
                          tr_next_state = next_state, tr_done = (if fin then 1 else 0)\<rparr>,
                      stats := \<lparr>episode_lengths = episode_t s,
                                episode_rewards = episode_rewards (stats s) + reward\<rparr>,
                      mem := write_params q new_q mem1, optimizer := opt'\<rparr>)
           else s\<lparr>env := e',
                   replay_memory := add (replay_memory s)
                      \<lparr>tr_state = state s, tr_action = action, tr_reward = reward,
                       tr_next_state = next_state, tr_done = (if fin then 1 else 0)\<rparr>,
                   stats := \<lparr>episode_lengths = episode_t s,
                             episode_rewards = episode_rewards (stats s) + reward\<rparr>,
                   mem := write_params q new_q mem1, optimizer := opt',
                   state := next_state, GLOBAL_STEP := GLOBAL_STEP s + 1,
                   episode_t := episode_t s + 1\<rparr>)"
    by (rule work_step_cases)
  have m: "mem s' = write_params q new_q mem1" by (simp add: s' episode_end_fields)
  have keep: "map (mem s') t = map mem1 t"
    unfolding m by (rule map_write_params_disjoint [OF disj])
  show ?thesis
  proof (cases "GLOBAL_STEP s mod update_target_estimator_every a = 0")
    case True
    with sync have l: "load_state_dict (mem s) t (state_dict q) = Inr mem1" by simp
    then have sh: "list_all2 (\<lambda>d s'. length (mem s d) = length (mem s s')) t q"
      by (simp add: load_state_dict_def state_dict_def split: if_splits)
    from load_state_dict_copy [OF assms(1) sh] obtain m' where
      "load_state_dict (mem s) t (state_dict q) = Inr m'" and "map m' t = map (mem s) q"
      by (elim exE conjE)
    with l have "map mem1 t = map (mem s) q" by simp
    with keep True show ?thesis by simp
  next
    case False
    with sync have "mem1 = mem s" by simp
    with keep False show ?thesis by simp
  qed
qed

lemma new_network_fresh:
  "new_network init h = (addrs, h') \<Longrightarrow>
     addrs = [lim h ..< lim h + length init] \<and> lim h' = lim h + length init
     \<and> map (cells h') addrs = init
     \<and> (\<forall>x. x \<notin> set addrs \<longrightarrow> cells h' x = cells h x)"
  by (auto simp: new_network_def Let_def map_write_params_dst write_params_other)

lemma run_init_copy:
  assumes "map length t_init = map length q_reset" and "length q_reset = length q_init"
  shows "\<exists>q t h'. run_init q_init t_init q_reset h = Inr (q, t, h')
           \<and> distinct (q @ t) \<and> map (cells h') t = q_reset \<and> map (cells h') q = q_reset"
proof -
  obtain q h1 where n1: "new_network q_init h = (q, h1)" by (cases "new_network q_init h")
  obtain t h2 where n2: "new_network t_init h1 = (t, h2)" by (cases "new_network t_init h1")
  from new_network_fresh [OF n1] have q: "q = [lim h ..< lim h + length q_init]"
    and l1: "lim h1 = lim h + length q_init" by blast+
  from new_network_fresh [OF n2] have t: "t = [lim h1 ..< lim h1 + length t_init]"
    and ct: "map (cells h2) t = t_init" by blast+
  have dist: "distinct (q @ t)" unfolding q t l1 by auto
  from assms have lt: "length t_init = length q_reset" by (metis length_map)
  have lq: "length q_reset = length q" using assms(2) q by simp
  let ?m3 = "write_params q q_reset (cells h2)"
  have dq: "distinct q" using dist by simp
  have disj: "set q \<inter> set t = {}" using dist by auto
  have m3q: "map ?m3 q = q_reset" by (rule map_write_params_dst [OF dq lq])
  have "map ?m3 t = map (cells h2) t" by (rule map_write_params_disjoint [OF disj])
  then have m3t: "map ?m3 t = t_init" using ct by (rule trans)
  have "map length (map ?m3 t) = map length (map ?m3 q)"
    unfolding m3q m3t by (rule assms(1))
  then have "list_all2 (=) (map length (map ?m3 t)) (map length (map ?m3 q))"
    by (simp only: list_all2_eq)
  then have sh: "list_all2 (\<lambda>d s. length (?m3 d) = length (?m3 s)) t q"
    by (simp only: list_all2_map1 list_all2_map2)
  from load_state_dict_copy [OF dist sh] obtain m' where
    l: "load_state_dict ?m3 t (state_dict q) = Inr m'"
    and mt: "map m' t = map ?m3 q" and mq: "map m' q = map ?m3 q" by (elim exE conjE)
  have r: "run_init q_init t_init q_reset h = Inr (q, t, h2\<lparr>cells := m'\<rparr>)"
    using n1 n2 l by (simp add: run_init_def Let_def)
  have ct': "map (cells (h2\<lparr>cells := m'\<rparr>)) t = q_reset" using mt m3q by simp
  have cq': "map (cells (h2\<lparr>cells := m'\<rparr>)) q = q_reset" using mq m3q by simp
  show ?thesis
    apply (rule exI [of _ q], rule exI [of _ t], rule exI [of _ "h2\<lparr>cells := m'\<rparr>"])
    apply (intro conjI)
       apply (rule r)
      apply (rule dist)
     apply (rule ct')
    apply (rule cq')
    done
qed

text \<open>
  C2 as the code has it. The two networks are constructed one after the other, so their
  parameter tensors are distinct (\<open>distinct (q @ t)\<close>), and \<^verbatim>\<open>run\<close> leaves both with the same
  parameter values. For such networks \<^verbatim>\<open>t_network.load_state_dict(q_network.state_dict())\<close>
  succeeds when the shapes agree and makes the target's parameter values equal to the
  online network's, which it leaves unchanged, so both networks (the same function \<open>F\<close> of
  the parameter values) give the same output on any batch \<open>X\<close>. An in-place update of the
  online network's parameters leaves the target's parameter values, and so its output, as
  they were. In the main loop the target's parameters after an iteration are the online
  network's parameters from before the iteration's gradient update when the step counter is
  a multiple of \<^verbatim>\<open>update_target_estimator_every\<close>, and the target's previous parameters
  otherwise.
\<close>

theorem target_sync_independent_copy:
  assumes "distinct (q @ t)"
  shows "(list_all2 (\<lambda>d s. length (m d) = length (m s)) t q \<longrightarrow>
            (\<exists>m'. load_state_dict m t (state_dict q) = Inr m'
               \<and> map m' t = map m q \<and> map m' q = map m q
               \<and> F (map m' t) X = F (map m' q) X))
       \<and> map (write_params q new m1) t = map m1 t
       \<and> F (map (write_params q new m1) t) X = F (map m1 t) X
       \<and> (work_step c a q t inp s = Inr s' \<longrightarrow>
            map (mem s') t = (if GLOBAL_STEP s mod update_target_estimator_every a = 0
                              then map (mem s) q else map (mem s) t))
       \<and> (map length t_init = map length q_reset \<longrightarrow> length q_reset = length q_init \<longrightarrow>
            (\<exists>q' t' h'. run_init q_init t_init q_reset h = Inr (q', t', h')
               \<and> distinct (q' @ t') \<and> map (cells h') t' = q_reset
               \<and> map (cells h') q' = q_reset))"
proof (intro conjI impI)
  assume "list_all2 (\<lambda>d s. length (m d) = length (m s)) t q"
  from load_state_dict_copy [OF assms this] obtain m' where
    l: "load_state_dict m t (state_dict q) = Inr m'"
    and mt: "map m' t = map m q" and mq: "map m' q = map m q"
    by (elim exE conjE)
  have "F (map m' t) X = F (map m' q) X" by (simp only: mt mq)
  with l mt mq show "\<exists>m'. load_state_dict m t (state_dict q) = Inr m'
               \<and> map m' t = map m q \<and> map m' q = map m q
               \<and> F (map m' t) X = F (map m' q) X"
    by (intro exI [of _ m'] conjI)
next
  from assms have disj: "set q \<inter> set t = {}" by auto
  show keep: "map (write_params q new m1) t = map m1 t"
    by (rule map_write_params_disjoint [OF disj])
  show "F (map (write_params q new m1) t) X = F (map m1 t) X"
    by (simp only: keep)
next
  assume "work_step c a q t inp s = Inr s'"
  with assms show "map (mem s') t = (if GLOBAL_STEP s mod update_target_estimator_every a = 0
                              then map (mem s) q else map (mem s) t)"
    by (rule work_step_target_params)
next
  assume "map length t_init = map length q_reset" and "length q_reset = length q_init"
  then show "\<exists>q' t' h'. run_init q_init t_init q_reset h = Inr (q', t', h')
               \<and> distinct (q' @ t') \<and> map (cells h') t' = q_reset
               \<and> map (cells h') q' = q_reset"
    by (rule run_init_copy)
qed

theorem target_sync_independent_copy_witness:
  "(\<exists>m'. load_state_dict example_mem [1] (state_dict [0]) = Inr m'
       \<and> map m' [1] = map example_mem [0] \<and> map m' [0] = map example_mem [0]
       \<and> net_forward example_collab (map m' [1]) example_probe
           = net_forward example_collab (map m' [0]) example_probe)
   \<and> map (write_params [0] [[9, 9]] example_mem) [1] = map example_mem [1]"
proof -
  have h: "distinct ([0 :: nat] @ [1])" by simp
  have sh: "list_all2 (\<lambda>d s. length (example_mem d) = length (example_mem s)) [1] [0]"
    by (simp add: example_mem_def)
  note inst = target_sync_independent_copy [OF h, where m = example_mem
      and F = "net_forward example_collab" and X = example_probe and new = "[[9, 9]]"
      and ?m1.0 = example_mem]
  from inst [THEN conjunct1] sh
  have a: "\<exists>m'. load_state_dict example_mem [1] (state_dict [0]) = Inr m'
       \<and> map m' [1] = map example_mem [0] \<and> map m' [0] = map example_mem [0]
       \<and> net_forward example_collab (map m' [1]) example_probe
           = net_forward example_collab (map m' [0]) example_probe"
    by (rule mp)
  have b: "map (write_params [0] [[9, 9]] example_mem) [1] = map example_mem [1]"
    by (rule inst [THEN conjunct2, THEN conjunct1])
  from a b show ?thesis by (rule conjI)
qed

text \<open>
  The claim as stated fails in its last part: the outputs of the two networks need not
  differ after an update. In the set-up above the update is that of a vanishing gradient
  (as when the sampled values already equal their targets, or when the final ReLU of
  \<^verbatim>\<open>DQN_Network\<close> is inactive on the whole batch), which leaves the parameters of the online
  network as they are: after the synchronisation and one update the two networks still
  give the same output on the probe batch.
\<close>

theorem target_outputs_equal_after_update:
  "load_state_dict example_mem [1] (state_dict [0]) = Inr (example_mem(1 := [1, 2]))
   \<and> gradient_step example_collab () (map (example_mem(1 := [1, 2])) [0]) [] [] []
       = ([[1, 2]], ())
   \<and> net_forward example_collab
        (map (write_params [0] [[1, 2]] (example_mem(1 := [1, 2]))) [1]) example_probe
     = net_forward example_collab
        (map (write_params [0] [[1, 2]] (example_mem(1 := [1, 2]))) [0]) example_probe"
  by (simp add: load_state_dict_def state_dict_def example_mem_def example_collab_def
      example_probe_def)

end
